theory Spec2Isabelle
  imports Main "HOL-Library.Word" "HOL-Library.AList" "HOL-Library.Multiset"
begin

section \<open>JavaScript strings and numbers\<close>

text \<open>
  A JavaScript string is a sequence of 16-bit UTF-16 code units. String literals of the
  source are written \<open>js ''...''\<close> where they are ASCII; other characters are given by
  their code unit (\<open>0xF8\<close> for the letter o-slash, and so on).

  Loop counters and pixel heights are natural numbers. JavaScript holds them in doubles,
  which are exact and print in plain decimal below \<open>2^53\<close>; \<open>num_str\<close> is that decimal
  rendering (template literals and \<open>+ 'px'\<close> in the source). The counter of \<open>uniqueSlug\<close>
  stays below the length of an array; a pixel height is guarded where it is used.
\<close>

type_synonym code_unit = "16 word"
type_synonym jsstring = "code_unit list"

definition js :: "string \<Rightarrow> jsstring" where
  "js s = map (\<lambda>c. of_nat (of_char c)) s"

definition digit :: "nat \<Rightarrow> code_unit" where
  "digit d = of_nat (48 + d)"

fun num_str :: "nat \<Rightarrow> jsstring" where
  "num_str n = (if n < 10 then [digit n] else num_str (n div 10) @ [digit (n mod 10)])"

declare num_str.simps [simp del]

lemma digit_inj: "a < 10 \<Longrightarrow> b < 10 \<Longrightarrow> digit a = digit b \<Longrightarrow> a = b"
proof -
  assume a: "a < 10" and b: "b < 10" and e: "digit a = digit b"
  have "unat (of_nat (48 + a) :: 16 word) = unat (of_nat (48 + b) :: 16 word)"
    using e by (simp add: digit_def)
  moreover have "unat (of_nat (48 + a) :: 16 word) = 48 + a"
    by (rule of_nat_inverse [OF refl]) (use a in simp)
  moreover have "unat (of_nat (48 + b) :: 16 word) = 48 + b"
    by (rule of_nat_inverse [OF refl]) (use b in simp)
  ultimately show "a = b" by simp
qed

lemma num_str_nonempty: "num_str n \<noteq> []"
  by (subst num_str.simps) simp

lemma num_str_inj: "num_str m = num_str n \<Longrightarrow> m = n"
proof (induction m arbitrary: n rule: num_str.induct)
  case (1 m)
  show ?case
  proof (cases "m < 10")
    case True
    then have m: "num_str m = [digit m]" by (subst num_str.simps) simp
    show ?thesis
    proof (cases "n < 10")
      case True
      then have "num_str n = [digit n]" by (subst num_str.simps) simp
      with m "1.prems" \<open>m < 10\<close> True show ?thesis by (auto dest: digit_inj)
    next
      case False
      then have "num_str n = num_str (n div 10) @ [digit (n mod 10)]"
        by (subst num_str.simps) simp
      with m "1.prems" num_str_nonempty [of "n div 10"] show ?thesis by auto
    qed
  next
    case False
    then have m: "num_str m = num_str (m div 10) @ [digit (m mod 10)]"
      by (subst num_str.simps) simp
    show ?thesis
    proof (cases "n < 10")
      case True
      then have "num_str n = [digit n]" by (subst num_str.simps) simp
      with m "1.prems" num_str_nonempty [of "m div 10"] show ?thesis by auto
    next
      case nb: False
      then have "num_str n = num_str (n div 10) @ [digit (n mod 10)]"
        by (subst num_str.simps) simp
      with m "1.prems" have e1: "num_str (m div 10) = num_str (n div 10)"
        and e2: "digit (m mod 10) = digit (n mod 10)" by auto
      from "1.IH" [OF False e1] have d: "m div 10 = n div 10" .
      from e2 have r: "m mod 10 = n mod 10" by (auto intro: digit_inj)
      from d r show ?thesis by (metis div_mult_mod_eq)
    qed
  qed
qed

section \<open>Slug generator (version-manager.js)\<close>

text \<open>The candidate \<open>`${slug}-${i}`\<close> of \<open>uniqueSlug\<close>.\<close>

definition suffixed :: "jsstring \<Rightarrow> nat \<Rightarrow> jsstring" where
  "suffixed slug i = slug @ js ''-'' @ num_str i"

lemma suffixed_inj: "suffixed slug i = suffixed slug j \<Longrightarrow> i = j"
  by (simp add: suffixed_def num_str_inj)

lemma finite_suffixed_in: "finite {j. suffixed slug j \<in> set ids}"
proof -
  have "inj (suffixed slug)" by (auto intro: injI suffixed_inj)
  then have "finite (suffixed slug -` set ids)" by (intro finite_vimageI) simp_all
  then show ?thesis by (simp add: vimage_def)
qed

text \<open>
  \<open>while (existingIds.includes(`${slug}-${i}`)) i++;\<close> The loop returns the counter it
  stops at.
\<close>

function uniqueSlug_loop :: "jsstring \<Rightarrow> jsstring list \<Rightarrow> nat \<Rightarrow> nat" where
  "uniqueSlug_loop slug existingIds i =
     (if suffixed slug i \<in> set existingIds then uniqueSlug_loop slug existingIds (Suc i) else i)"
  by pat_completeness auto
termination
proof (relation "measure (\<lambda>(slug, ids, i). card {j. i \<le> j \<and> suffixed slug j \<in> set ids})")
  show "wf (measure (\<lambda>(slug, ids, i). card {j. i \<le> j \<and> suffixed slug j \<in> set ids}))"
    by simp
next
  fix slug :: jsstring and existingIds :: "jsstring list" and i :: nat
  assume m: "suffixed slug i \<in> set existingIds"
  let ?A = "{j. Suc i \<le> j \<and> suffixed slug j \<in> set existingIds}"
  let ?B = "{j. i \<le> j \<and> suffixed slug j \<in> set existingIds}"
  have fin: "finite ?B" using finite_suffixed_in [of slug existingIds] by simp
  have "i \<in> ?B" and "i \<notin> ?A" and "?A \<subseteq> ?B" using m by auto
  then have "?A \<subset> ?B" by blast
  then have "card ?A < card ?B" using fin by (rule psubset_card_mono [rotated])
  then show "((slug, existingIds, Suc i), (slug, existingIds, i))
      \<in> measure (\<lambda>(slug, ids, i). card {j. i \<le> j \<and> suffixed slug j \<in> set ids})"
    by simp
qed

declare uniqueSlug_loop.simps [simp del]

definition uniqueSlug :: "jsstring \<Rightarrow> jsstring list \<Rightarrow> jsstring" where
  "uniqueSlug slug existingIds =
     (if slug \<notin> set existingIds then slug
      else suffixed slug (uniqueSlug_loop slug existingIds 2))"


text \<open>
  \<open>String.prototype.toLowerCase\<close> is the platform's. On a string of Latin-1 code units it
  maps each unit on its own: \<open>A\<close>-\<open>Z\<close> and the capitals \<open>0xC0\<close>-\<open>0xDE\<close> (but for the
  multiplication sign \<open>0xD7\<close>) move up by \<open>0x20\<close> and every other unit stays. Outside
  Latin-1 the Unicode mapping is taken as the parameter \<open>unicode_lower\<close>.
\<close>

definition latin1_lower :: "code_unit \<Rightarrow> code_unit" where
  "latin1_lower c =
     (if (0x41 \<le> c \<and> c \<le> 0x5A) \<or> (0xC0 \<le> c \<and> c \<le> 0xDE \<and> c \<noteq> 0xD7) then c + 0x20 else c)"

definition toLowerCase :: "(jsstring \<Rightarrow> jsstring) \<Rightarrow> jsstring \<Rightarrow> jsstring" where
  "toLowerCase unicode_lower s =
     (if list_all (\<lambda>c. c < 0x100) s then map latin1_lower s else unicode_lower s)"

text \<open>\<open>s.replace(/c/g, r)\<close> for a single code unit \<open>c\<close>.\<close>

definition replace_unit :: "code_unit \<Rightarrow> jsstring \<Rightarrow> jsstring \<Rightarrow> jsstring" where
  "replace_unit c r s = concat (map (\<lambda>x. if x = c then r else [x]) s)"

text \<open>
  \<open>s.replace(/[class]+/g, r)\<close>: scanning from the left, every maximal run of units of the
  class is replaced by \<open>r\<close> (the \<open>+\<close> is greedy).
\<close>

function replace_runs :: "(code_unit \<Rightarrow> bool) \<Rightarrow> jsstring \<Rightarrow> jsstring \<Rightarrow> jsstring" where
  "replace_runs p r [] = []"
| "replace_runs p r (x # xs) =
     (if p x then r @ replace_runs p r (dropWhile p xs) else x # replace_runs p r xs)"
  by pat_completeness auto
termination
  by (relation "measure (\<lambda>(p, r, s). length s)")
    (auto simp: length_dropWhile_le less_Suc_eq_le)

definition hyphen :: code_unit where
  "hyphen = 0x2D"

definition alnum :: "code_unit \<Rightarrow> bool" where
  "alnum c = ((0x61 \<le> c \<and> c \<le> 0x7A) \<or> (0x30 \<le> c \<and> c \<le> 0x39))"

text \<open>
  \<open>s.replace(/^-|-$/g, '')\<close>: without the \<open>m\<close> flag, \<open>^\<close> and \<open>$\<close> match at the two ends
  of the string only, so at most one hyphen goes at each end.
\<close>

definition strip_hyphen_ends :: "jsstring \<Rightarrow> jsstring" where
  "strip_hyphen_ends s =
     (let s1 = (case s of [] \<Rightarrow> [] | c # r \<Rightarrow> if c = hyphen then r else s)
      in if s1 \<noteq> [] \<and> last s1 = hyphen then butlast s1 else s1)"

definition slugify :: "(jsstring \<Rightarrow> jsstring) \<Rightarrow> jsstring \<Rightarrow> jsstring" where
  "slugify unicode_lower name =
     strip_hyphen_ends
       (replace_runs (\<lambda>c. c = hyphen) [hyphen]
         (replace_runs (\<lambda>c. \<not> alnum c) [hyphen]
           (replace_unit 0xE5 (js ''a'')
             (replace_unit 0xF8 (js ''o'')
               (replace_unit 0xE6 (js ''ae'')
                 (toLowerCase unicode_lower name))))))"

text \<open>
  The name of the specification's scenario: \<open>M\<close>, o-slash, \<open>rk 16:9\<close>.
\<close>

definition scenario_name :: jsstring where
  "scenario_name = [0x4D, 0xF8] @ js ''rk 16:9''"

text \<open>
  The slug as the specification words it: lowercase, transliterate the three letters,
  turn every run of units that are not \<open>a\<close>-\<open>z\<close> or \<open>0\<close>-\<open>9\<close> into one hyphen, and trim
  all hyphens at both ends.
\<close>

definition transliterate :: "jsstring \<Rightarrow> jsstring" where
  "transliterate s =
     concat (map (\<lambda>c. if c = 0xE6 then js ''ae'' else if c = 0xF8 then js ''o''
                       else if c = 0xE5 then js ''a'' else [c]) s)"

fun collapse_runs :: "bool \<Rightarrow> jsstring \<Rightarrow> jsstring" where
  "collapse_runs in_run [] = []"
| "collapse_runs in_run (c # s) =
     (if alnum c then c # collapse_runs False s
      else if in_run then collapse_runs True s
      else hyphen # collapse_runs True s)"

definition trim_hyphens :: "jsstring \<Rightarrow> jsstring" where
  "trim_hyphens s = rev (dropWhile (\<lambda>c. c = hyphen) (rev (dropWhile (\<lambda>c. c = hyphen) s)))"

definition slugify_spec :: "(jsstring \<Rightarrow> jsstring) \<Rightarrow> jsstring \<Rightarrow> jsstring" where
  "slugify_spec unicode_lower name =
     trim_hyphens (collapse_runs False (transliterate (toLowerCase unicode_lower name)))"


section \<open>Errors\<close>

text \<open>
  The source throws \<open>new Error(message)\<close>; the platform throws its own exceptions
  (\<open>atob\<close> and \<open>btoa\<close> an \<open>InvalidCharacterError\<close>, \<open>JSON.parse\<close> a \<open>SyntaxError\<close>,
  \<open>resp.json()\<close> too, a failed \<open>fetch\<close> and a property read on \<open>null\<close> a
  \<open>TypeError\<close>).
  A function that may throw returns \<open>error + 'a\<close>, the error on the left.
\<close>

datatype error =
    Error jsstring
  | InvalidCharacterError
  | SyntaxError
  | TypeError

section \<open>Encoding utility (version-manager.js, github-save.js)\<close>

subsection \<open>\<open>TextEncoder.encode\<close>: UTF-16 code units to UTF-8 bytes\<close>

definition is_lead :: "code_unit \<Rightarrow> bool" where
  "is_lead c = (0xD800 \<le> c \<and> c \<le> 0xDBFF)"

definition is_trail :: "code_unit \<Rightarrow> bool" where
  "is_trail c = (0xDC00 \<le> c \<and> c \<le> 0xDFFF)"

text \<open>
  The scalar values of a string: a lead surrogate followed by a trail surrogate is one
  supplementary code point, any other surrogate becomes \<open>U+FFFD\<close>.
\<close>

fun code_points :: "jsstring \<Rightarrow> nat list" where
  "code_points [] = []"
| "code_points [c] = (if is_lead c \<or> is_trail c then [0xFFFD] else [unat c])"
| "code_points (c # d # s) =
     (if is_lead c \<and> is_trail d
      then (0x10000 + (unat c - 0xD800) * 0x400 + (unat d - 0xDC00)) # code_points s
      else if is_lead c \<or> is_trail c then 0xFFFD # code_points (d # s)
      else unat c # code_points (d # s))"

text \<open>A Unicode scalar value is a code point that is no surrogate.\<close>

definition scalar :: "nat \<Rightarrow> bool" where
  "scalar cp = (cp < 0x110000 \<and> \<not> (0xD800 \<le> cp \<and> cp \<le> 0xDFFF))"

text \<open>Bytes are natural numbers below 256.\<close>

definition utf8_bytes :: "nat \<Rightarrow> nat list" where
  "utf8_bytes cp =
     (if cp < 0x80 then [cp]
      else if cp < 0x800 then [0xC0 + cp div 0x40, 0x80 + cp mod 0x40]
      else if cp < 0x10000
        then [0xE0 + cp div 0x1000, 0x80 + cp div 0x40 mod 0x40, 0x80 + cp mod 0x40]
      else [0xF0 + cp div 0x40000, 0x80 + cp div 0x1000 mod 0x40,
            0x80 + cp div 0x40 mod 0x40, 0x80 + cp mod 0x40])"

definition text_encode :: "jsstring \<Rightarrow> nat list" where
  "text_encode s = concat (map utf8_bytes (code_points s))"

subsection \<open>\<open>btoa\<close> and \<open>atob\<close>\<close>

definition b64_char :: "nat \<Rightarrow> code_unit" where
  "b64_char i =
     (if i < 26 then of_nat (0x41 + i)
      else if i < 52 then of_nat (0x61 + (i - 26))
      else if i < 62 then of_nat (0x30 + (i - 52))
      else if i = 62 then 0x2B else 0x2F)"

definition b64_value :: "code_unit \<Rightarrow> nat option" where
  "b64_value c =
     (if 0x41 \<le> c \<and> c \<le> 0x5A then Some (unat c - 0x41)
      else if 0x61 \<le> c \<and> c \<le> 0x7A then Some (unat c - 0x61 + 26)
      else if 0x30 \<le> c \<and> c \<le> 0x39 then Some (unat c - 0x30 + 52)
      else if c = 0x2B then Some 62
      else if c = 0x2F then Some 63
      else None)"

text \<open>Three bytes make four 6-bit groups; one or two bytes at the end make two or three.\<close>

fun sextets :: "nat list \<Rightarrow> nat list" where
  "sextets (a # b # c # r) =
     [a div 4, (a mod 4) * 16 + b div 16, (b mod 16) * 4 + c div 64, c mod 64] @ sextets r"
| "sextets [a, b] = [a div 4, (a mod 4) * 16 + b div 16, (b mod 16) * 4]"
| "sextets [a] = [a div 4, (a mod 4) * 16]"
| "sextets [] = []"

definition equals_sign :: code_unit where
  "equals_sign = 0x3D"

text \<open>The base64 text of a byte sequence, padded with \<open>=\<close> to a multiple of four.\<close>

definition b64_text :: "nat list \<Rightarrow> jsstring" where
  "b64_text bs = map b64_char (sextets bs) @ replicate ((3 - length bs mod 3) mod 3) equals_sign"

text \<open>\<open>btoa\<close> throws when a code unit of its argument is above \<open>0xFF\<close>.\<close>

definition btoa :: "jsstring \<Rightarrow> error + jsstring" where
  "btoa binary =
     (if list_ex (\<lambda>u. 0xFF < u) binary then Inl InvalidCharacterError
      else Inr (b64_text (map unat binary)))"

text \<open>
  \<open>atob\<close> is the forgiving base64 decoding: ASCII whitespace is dropped; when the length is
  a multiple of four, one or two \<open>=\<close> at the end are dropped; a length of \<open>1 mod 4\<close> or a
  unit outside the alphabet fails; leftover bits of the last group are discarded.
\<close>

definition ascii_whitespace :: "code_unit \<Rightarrow> bool" where
  "ascii_whitespace c = (c = 0x09 \<or> c = 0x0A \<or> c = 0x0C \<or> c = 0x0D \<or> c = 0x20)"

definition strip_padding :: "jsstring \<Rightarrow> jsstring" where
  "strip_padding d =
     (if length d mod 4 = 0 then
        (if d \<noteq> [] \<and> last d = equals_sign then
           (if butlast d \<noteq> [] \<and> last (butlast d) = equals_sign then butlast (butlast d)
            else butlast d)
         else d)
      else d)"

fun octets :: "nat list \<Rightarrow> nat list" where
  "octets (a # b # c # d # r) =
     [a * 4 + b div 16, (b mod 16) * 16 + c div 4, (c mod 4) * 64 + d] @ octets r"
| "octets [a, b, c] = [a * 4 + b div 16, (b mod 16) * 16 + c div 4]"
| "octets [a, b] = [a * 4 + b div 16]"
| "octets [a] = []"
| "octets [] = []"

definition atob :: "jsstring \<Rightarrow> error + jsstring" where
  "atob data =
     (let d = strip_padding (filter (\<lambda>c. \<not> ascii_whitespace c) data)
      in if length d mod 4 = 1 then Inl InvalidCharacterError
         else (case those (map b64_value d) of
                 None \<Rightarrow> Inl InvalidCharacterError
               | Some vs \<Rightarrow> Inr (map of_nat (octets vs))))"

subsection \<open>\<open>TextDecoder.decode\<close>: UTF-8 bytes to UTF-16 code units\<close>

text \<open>
  The UTF-8 decoder of the Encoding Standard, with its state written as arguments: the
  code point under construction, the bytes needed and seen, and the bounds of the next
  continuation byte. An error emits \<open>U+FFFD\<close>; a byte that is no continuation is looked
  at again from the initial state.
\<close>

fun utf8_decode :: "nat \<Rightarrow> nat \<Rightarrow> nat \<Rightarrow> nat \<Rightarrow> nat \<Rightarrow> nat list \<Rightarrow> nat list" where
  "utf8_decode cp needed seen lower upper [] = (if needed \<noteq> 0 then [0xFFFD] else [])"
| "utf8_decode cp needed seen lower upper (b # bs) =
     (if needed = 0 then
        (if b \<le> 0x7F then b # utf8_decode 0 0 0 0x80 0xBF bs
         else if 0xC2 \<le> b \<and> b \<le> 0xDF then utf8_decode (b mod 0x20) 1 0 lower upper bs
         else if 0xE0 \<le> b \<and> b \<le> 0xEF then
           utf8_decode (b mod 0x10) 2 0
             (if b = 0xE0 then 0xA0 else lower) (if b = 0xED then 0x9F else upper) bs
         else if 0xF0 \<le> b \<and> b \<le> 0xF4 then
           utf8_decode (b mod 8) 3 0
             (if b = 0xF0 then 0x90 else lower) (if b = 0xF4 then 0x8F else upper) bs
         else 0xFFFD # utf8_decode 0 0 0 0x80 0xBF bs)
      else if b < lower \<or> upper < b then 0xFFFD # utf8_decode 0 0 0 0x80 0xBF (b # bs)
      else if Suc seen \<noteq> needed
        then utf8_decode (cp * 0x40 + b mod 0x40) needed (Suc seen) 0x80 0xBF bs
      else (cp * 0x40 + b mod 0x40) # utf8_decode 0 0 0 0x80 0xBF bs)"

text \<open>
  A decoder made by \<open>new TextDecoder()\<close> has \<open>ignoreBOM\<close> false: when the first scalar
  value decoded is \<open>U+FEFF\<close> it is left out of the result.
\<close>

definition strip_bom :: "nat list \<Rightarrow> nat list" where
  "strip_bom cps = (case cps of [] \<Rightarrow> [] | c # r \<Rightarrow> if c = 0xFEFF then r else cps)"

definition utf16_units :: "nat \<Rightarrow> jsstring" where
  "utf16_units cp =
     (if cp < 0x10000 then [of_nat cp]
      else [of_nat (0xD800 + (cp - 0x10000) div 0x400),
            of_nat (0xDC00 + (cp - 0x10000) mod 0x400)])"

definition text_decode :: "nat list \<Rightarrow> jsstring" where
  "text_decode bytes =
     concat (map utf16_units (strip_bom (utf8_decode 0 0 0 0x80 0xBF bytes)))"

text \<open>
  A string is well formed when its surrogates come in pairs, a lead followed by a trail:
  it is then the UTF-16 form of a sequence of Unicode scalar values.
\<close>

fun well_formed :: "jsstring \<Rightarrow> bool" where
  "well_formed [] = True"
| "well_formed [c] = (\<not> is_lead c \<and> \<not> is_trail c)"
| "well_formed (c # d # s) =
     (if is_lead c then is_trail d \<and> well_formed s
      else \<not> is_trail c \<and> well_formed (d # s))"

subsection \<open>\<open>utf8ToBase64\<close> and \<open>base64ToUtf8\<close>\<close>

text \<open>
  \<open>binary += String.fromCharCode(bytes[i])\<close> makes one code unit of each byte;
  \<open>bytes[i] = binary.charCodeAt(i)\<close> stores a code unit into a \<open>Uint8Array\<close>, which keeps
  it modulo 256.
\<close>

definition utf8ToBase64 :: "jsstring \<Rightarrow> error + jsstring" where
  "utf8ToBase64 str = btoa (map of_nat (text_encode str))"

definition base64ToUtf8 :: "jsstring \<Rightarrow> error + jsstring" where
  "base64ToUtf8 base64 =
     (case atob (filter (\<lambda>c. c \<noteq> 0x0A) base64) of
        Inl e \<Rightarrow> Inl e
      | Inr binary \<Rightarrow> Inr (text_decode (map (\<lambda>u. unat u mod 256) binary)))"


section \<open>Remote file store client\<close>

subsection \<open>Requests, responses and the network\<close>

text \<open>
  The body of a \<open>PUT\<close> is \<open>{message, content, branch, sha?}\<close>. A response has a status
  and a JSON body, \<open>None\<close> when the body is no JSON (then \<open>resp.json()\<close> rejects). Of a
  JSON body the source reads \<open>sha\<close>, \<open>content\<close>, \<open>message\<close> and \<open>commit.html_url\<close>. An
  absent \<open>sha\<close>, \<open>message\<close> or commit is the empty string here, which the source's
  tests (\<open>if (sha)\<close>, \<open>err.message || ...\<close>, \<open>result.commit ? ... : ''\<close>) treat the same
  way; an absent \<open>content\<close> is \<open>None\<close>, since \<open>base64ToUtf8\<close> calls a method on it.
\<close>

datatype http_method = GET | PUT

record put_body =
  pb_message :: jsstring
  pb_content :: jsstring
  pb_branch :: jsstring
  pb_sha :: "jsstring option"

record request =
  rq_method :: http_method
  rq_url :: jsstring
  rq_authorization :: jsstring
  rq_body :: "put_body option"

record json_body =
  jb_sha :: jsstring
  jb_content :: "jsstring option"
  jb_message :: jsstring
  jb_commit_url :: jsstring

record response =
  rs_status :: nat
  rs_json :: "json_body option"

datatype fetch_result = NetworkFailure | Response response

type_synonym network = "request \<Rightarrow> fetch_result"

definition ok :: "response \<Rightarrow> bool" where
  "ok resp = (200 \<le> rs_status resp \<and> rs_status resp \<le> 299)"

subsection \<open>Module state\<close>

text \<open>
  A version record and the object \<open>_versions\<close>, kept as an association list in the order
  of its keys: \<open>_versions[k] = v\<close> is \<open>AList.update\<close> (an existing key keeps its place, a
  new one goes last), \<open>delete _versions[k]\<close> is \<open>AList.delete\<close>, \<open>Object.keys\<close> is
  \<open>map fst\<close>. (JavaScript lists keys that are array indices first; no statement below
  depends on the order of the keys.) An assignment \<open>_versions[k] = v\<close> makes an own
  property: \<open>Object.prototype\<close> has no setter and no read-only property under a key that
  \<open>slugify\<close> can give. A timestamp that is absent is \<open>None\<close>.
\<close>

record 'c version =
  v_name :: jsstring
  v_id :: jsstring
  v_createdAt :: "jsstring option"
  v_updatedAt :: "jsstring option"
  v_config :: 'c

type_synonym 'c versions = "(jsstring \<times> 'c version) list"

text \<open>
  The state the functions read and write: the module variables \<open>_versions\<close> and \<open>_sha\<close>,
  \<open>localStorage\<close>, and the requests sent so far, oldest first.
\<close>

record 'c state =
  st_versions :: "'c versions"
  st_sha :: "jsstring option"
  st_storage :: "jsstring \<rightharpoonup> jsstring"
  st_sent :: "request list"

definition fetch :: "network \<Rightarrow> request \<Rightarrow> 'c state \<Rightarrow> fetch_result \<times> 'c state" where
  "fetch net rq st = (net rq, st\<lparr>st_sent := st_sent st @ [rq]\<rparr>)"

text \<open>
  A read \<open>_versions[k]\<close> that finds no own property goes on to \<open>Object.prototype\<close>, since
  \<open>_versions\<close> is a plain object. What it finds there under a key is either nothing (or
  a falsy value, which the source's tests take for nothing), or a truthy value. Of such a
  value the source uses two things: whether a property can be created on it (the
  assignment \<open>x.config = ...\<close> throws a \<open>TypeError\<close> in strict code when \<open>x\<close> is a
  primitive or a frozen object), and its \<open>name\<close> (\<open>None\<close> when that is \<open>undefined\<close>).
\<close>

datatype inherited = NotInherited | Inherited bool "jsstring option"

text \<open>
  \<open>Object.prototype\<close> as a browser makes it: \<open>constructor\<close> is the function \<open>Object\<close>,
  the methods are functions named like their keys, and \<open>__proto__\<close> gives
  \<open>Object.prototype\<close> itself, which has no \<open>name\<close>.
\<close>

definition prototype_methods :: "jsstring list" where
  "prototype_methods =
     [js ''hasOwnProperty'', js ''isPrototypeOf'', js ''propertyIsEnumerable'',
      js ''toLocaleString'', js ''toString'', js ''valueOf'', js ''__defineGetter__'',
      js ''__defineSetter__'', js ''__lookupGetter__'', js ''__lookupSetter__'']"

definition browser_prototype :: "jsstring \<Rightarrow> inherited" where
  "browser_prototype k =
     (if k = js ''constructor'' then Inherited True (Some (js ''Object''))
      else if k = js ''__proto__'' then Inherited True None
      else if k \<in> set prototype_methods then Inherited True (Some k)
      else NotInherited)"

text \<open>
  What the platform and the page supply: the Unicode lowercase mapping, \<open>JSON.parse\<close> of
  the store file (it throws, or gives \<open>null\<close>, or an object whose \<open>versions\<close> may be
  missing), \<open>JSON.stringify({versions: v}, null, 2)\<close>, \<open>JSON.stringify(v)\<close>, the time
  value of \<open>new Date(s)\<close> (\<open>None\<close> for an invalid date), and \<open>Object.prototype\<close> as it is
  at the call (\<open>browser_prototype\<close>, unless a script has added to it). The two
  \<open>JSON.stringify\<close> take the pairs for the object they make up, so the order in which
  that object lists its keys is theirs.
\<close>

datatype 'c parsed = NotJson | JsonNull | JsonObject "'c versions option"

record 'c platform =
  unicode_lower :: "jsstring \<Rightarrow> jsstring"
  json_parse :: "jsstring \<Rightarrow> 'c parsed"
  json_stringify_store :: "'c versions \<Rightarrow> jsstring"
  json_stringify :: "'c versions \<Rightarrow> jsstring"
  date_ms :: "jsstring \<Rightarrow> int option"
  object_prototype :: "jsstring \<Rightarrow> inherited"

text \<open>\<open>_versions[k]\<close>: the own property, or else what \<open>Object.prototype\<close> has.\<close>

definition get_property :: "'c platform \<Rightarrow> 'c versions \<Rightarrow> jsstring \<Rightarrow> 'c version + inherited" where
  "get_property P m k = (case map_of m k of Some v \<Rightarrow> Inl v | None \<Rightarrow> Inr (object_prototype P k))"

text \<open>The \<open>_config\<close> of \<open>init\<close>; \<open>getCurrentConfig\<close> is the value the callback returns.\<close>

record 'c config =
  chartType :: jsstring
  versionsPath :: jsstring
  publicUrl :: jsstring
  getCurrentConfig :: 'c

definition GITHUB_TOKEN_KEY :: jsstring where
  "GITHUB_TOKEN_KEY = js ''github_pat''"

definition OWNER :: jsstring where
  "OWNER = js ''tskjelde-bit''"

definition REPO :: jsstring where
  "REPO = js ''grafer''"

definition getToken :: "'c state \<Rightarrow> jsstring" where
  "getToken st = (case st_storage st GITHUB_TOKEN_KEY of None \<Rightarrow> [] | Some t \<Rightarrow> t)"

definition contents_url :: "jsstring \<Rightarrow> jsstring \<Rightarrow> jsstring \<Rightarrow> jsstring" where
  "contents_url owner repo path =
     js ''https://api.github.com/repos/'' @ owner @ js ''/'' @ repo @ js ''/contents/'' @ path"

definition get_request :: "jsstring \<Rightarrow> jsstring \<Rightarrow> jsstring \<Rightarrow> jsstring \<Rightarrow> request" where
  "get_request owner repo path token =
     \<lparr>rq_method = GET, rq_url = contents_url owner repo path @ js ''?ref=main'',
      rq_authorization = js ''token '' @ token, rq_body = None\<rparr>"

definition put_request ::
  "jsstring \<Rightarrow> jsstring \<Rightarrow> jsstring \<Rightarrow> jsstring \<Rightarrow> put_body \<Rightarrow> request" where
  "put_request owner repo path token b =
     \<lparr>rq_method = PUT, rq_url = contents_url owner repo path,
      rq_authorization = js ''token '' @ token, rq_body = Some b\<rparr>"

subsection \<open>Reading (version-manager.js \<open>getFileFromGitHub\<close>, github-save.js \<open>getFileSha\<close>)\<close>

record remote_file =
  f_sha :: jsstring
  f_content :: jsstring

definition read_failed :: "nat \<Rightarrow> error" where
  "read_failed st = Error (js ''Kunne ikke hente fil: '' @ num_str st)"

definition getFileFromGitHub ::
  "network \<Rightarrow> jsstring \<Rightarrow> jsstring \<Rightarrow> 'c state \<Rightarrow> (error + remote_file option) \<times> 'c state" where
  "getFileFromGitHub net path token st =
     (case fetch net (get_request OWNER REPO path token) st of
        (NetworkFailure, st1) \<Rightarrow> (Inl TypeError, st1)
      | (Response resp, st1) \<Rightarrow>
          if rs_status resp = 404 then (Inr None, st1)
          else if \<not> ok resp then (Inl (read_failed (rs_status resp)), st1)
          else (case rs_json resp of
                  None \<Rightarrow> (Inl SyntaxError, st1)
                | Some data \<Rightarrow>
                    (case jb_content data of
                       None \<Rightarrow> (Inl TypeError, st1)
                     | Some base64 \<Rightarrow>
                         (case base64ToUtf8 base64 of
                            Inl e \<Rightarrow> (Inl e, st1)
                          | Inr text \<Rightarrow>
                              (Inr (Some \<lparr>f_sha = jb_sha data, f_content = text\<rparr>), st1)))))"

definition getFileSha ::
  "network \<Rightarrow> jsstring \<Rightarrow> jsstring \<Rightarrow> jsstring \<Rightarrow> jsstring \<Rightarrow> 'c state
     \<Rightarrow> (error + jsstring option) \<times> 'c state" where
  "getFileSha net owner repo path token st =
     (case fetch net (get_request owner repo path token) st of
        (NetworkFailure, st1) \<Rightarrow> (Inl TypeError, st1)
      | (Response resp, st1) \<Rightarrow>
          if rs_status resp = 404 then (Inr None, st1)
          else if \<not> ok resp then (Inl (read_failed (rs_status resp)), st1)
          else (case rs_json resp of
                  None \<Rightarrow> (Inl SyntaxError, st1)
                | Some data \<Rightarrow> (Inr (Some (jb_sha data)), st1)))"

subsection \<open>Writing (version-manager.js \<open>saveFileToGitHub\<close>, github-save.js \<open>saveToGitHub\<close>)\<close>

definition invalid_token_message :: jsstring where
  "invalid_token_message =
     js ''Ugyldig eller utl'' @ [0xF8] @ js ''pt token. Oppdater token i innstillinger.''"

text \<open>The two files word the 409 message with an en dash and with a hyphen.\<close>

definition conflict_message :: "code_unit \<Rightarrow> jsstring" where
  "conflict_message dash =
     js ''Konflikt '' @ [dash] @ js '' filen ble endret av andre. Pr'' @ [0xF8] @ js ''v igjen.''"

definition stale_message :: jsstring where
  "stale_message =
     js ''Filen ble endret siden sist. Last inn siden p'' @ [0xE5] @ js '' nytt og pr''
       @ [0xF8] @ js ''v igjen.''"

text \<open>The branches of \<open>if (!resp.ok) { ... }\<close>, the same in both files but for the dash.\<close>

definition write_failed :: "code_unit \<Rightarrow> response \<Rightarrow> error" where
  "write_failed dash resp =
     (let err_message = (case rs_json resp of None \<Rightarrow> [] | Some err \<Rightarrow> jb_message err)
      in if rs_status resp = 401 then Error invalid_token_message
         else if rs_status resp = 409 then Error (conflict_message dash)
         else if rs_status resp = 422 then Error stale_message
         else Error (if err_message \<noteq> [] then err_message
                     else js ''GitHub API feil: '' @ num_str (rs_status resp)))"

text \<open>\<open>if (sha) body.sha = sha;\<close> leaves \<open>null\<close> and the empty string out of the body.\<close>

definition body_sha :: "jsstring option \<Rightarrow> jsstring option" where
  "body_sha sha = (case sha of None \<Rightarrow> None | Some s \<Rightarrow> if s \<noteq> [] then Some s else None)"

definition saveFileToGitHub ::
  "network \<Rightarrow> jsstring \<Rightarrow> jsstring \<Rightarrow> jsstring \<Rightarrow> jsstring \<Rightarrow> jsstring option \<Rightarrow> 'c state
     \<Rightarrow> (error + json_body) \<times> 'c state" where
  "saveFileToGitHub net path content message token sha st =
     (case utf8ToBase64 content of
        Inl e \<Rightarrow> (Inl e, st)
      | Inr encoded \<Rightarrow>
          (case fetch net
                  (put_request OWNER REPO path token
                     \<lparr>pb_message = message, pb_content = encoded, pb_branch = js ''main'',
                      pb_sha = body_sha sha\<rparr>) st of
             (NetworkFailure, st1) \<Rightarrow> (Inl TypeError, st1)
           | (Response resp, st1) \<Rightarrow>
               if \<not> ok resp then (Inl (write_failed 0x2013 resp), st1)
               else (case rs_json resp of
                       None \<Rightarrow> (Inl SyntaxError, st1)
                     | Some result \<Rightarrow> (Inr result, st1))))"

record save_result =
  sr_success :: bool
  sr_commitUrl :: jsstring
  sr_message :: jsstring

definition saveToGitHub ::
  "network \<Rightarrow> jsstring \<Rightarrow> jsstring \<Rightarrow> jsstring \<Rightarrow> jsstring \<Rightarrow> jsstring \<Rightarrow> jsstring \<Rightarrow> 'c state
     \<Rightarrow> (error + save_result) \<times> 'c state" where
  "saveToGitHub net owner repo path content message token st =
     (case getFileSha net owner repo path token st of
        (Inl e, st1) \<Rightarrow> (Inl e, st1)
      | (Inr sha, st1) \<Rightarrow>
          (case utf8ToBase64 content of
             Inl e \<Rightarrow> (Inl e, st1)
           | Inr base64Content \<Rightarrow>
               (case fetch net
                       (put_request owner repo path token
                          \<lparr>pb_message = message, pb_content = base64Content,
                           pb_branch = js ''main'', pb_sha = body_sha sha\<rparr>) st1 of
                  (NetworkFailure, st2) \<Rightarrow> (Inl TypeError, st2)
                | (Response resp, st2) \<Rightarrow>
                    if \<not> ok resp then (Inl (write_failed 0x2D resp), st2)
                    else (case rs_json resp of
                            None \<Rightarrow> (Inl SyntaxError, st2)
                          | Some result \<Rightarrow>
                              (Inr \<lparr>sr_success = True, sr_commitUrl = jb_commit_url result,
                                    sr_message = js ''Lagret til GitHub!''\<rparr>, st2)))))"


section \<open>Version store (version-manager.js)\<close>

definition getLatestFromGitHub ::
  "'c platform \<Rightarrow> 'c config \<Rightarrow> network \<Rightarrow> jsstring \<Rightarrow> 'c state \<Rightarrow> (error + unit) \<times> 'c state" where
  "getLatestFromGitHub P cfg net token st =
     (case getFileFromGitHub net (versionsPath cfg) token st of
        (Inl e, st1) \<Rightarrow> (Inl e, st1)
      | (Inr None, st1) \<Rightarrow> (Inr (), st1\<lparr>st_versions := [], st_sha := None\<rparr>)
      | (Inr (Some file), st1) \<Rightarrow>
          (case json_parse P (f_content file) of
             NotJson \<Rightarrow> (Inl SyntaxError, st1)
           | JsonNull \<Rightarrow> (Inl TypeError, st1)
           | JsonObject vs \<Rightarrow>
               (Inr (), st1\<lparr>st_versions := (case vs of None \<Rightarrow> [] | Some m \<Rightarrow> m),
                              st_sha := Some (f_sha file)\<rparr>)))"

definition cache_key :: "'c config \<Rightarrow> jsstring" where
  "cache_key cfg = js ''versions-cache-'' @ chartType cfg"

definition commit_message :: "jsstring \<Rightarrow> jsstring \<Rightarrow> 'c config \<Rightarrow> jsstring" where
  "commit_message operation name cfg = operation @ name @ js '' ('' @ chartType cfg @ js '')''"

definition no_token_long :: jsstring where
  "no_token_long =
     js ''Ingen GitHub-token satt. G'' @ [0xE5] @ js '' til admin-siden og sett opp token.''"

definition no_token_short :: jsstring where
  "no_token_short = js ''Ingen GitHub-token satt.''"

text \<open>
  The three mutating operations. \<open>now\<close> is \<open>new Date().toISOString()\<close> at the call. The
  closing \<open>this._renderList()\<close> redraws the panel and leaves the state alone.

  In \<open>updateVersion\<close> the test \<open>!_versions[id]\<close> and the two assignments go through
  \<open>_versions[id]\<close>: when \<open>id\<close> is no own key but \<open>Object.prototype\<close> has a truthy value
  under it (\<open>constructor\<close>, say), nothing is thrown, the assignments land on that value
  and not on \<open>_versions\<close>, and the unchanged mapping is written. \<open>deleteVersion\<close> reads
  the name for its commit message the same way; \<open>delete\<close> removes an own property only.
\<close>

definition saveVersion ::
  "'c platform \<Rightarrow> 'c config \<Rightarrow> network \<Rightarrow> jsstring \<Rightarrow> jsstring \<Rightarrow> 'c state
     \<Rightarrow> (error + jsstring) \<times> 'c state" where
  "saveVersion P cfg net now name st =
     (let token = getToken st in
      if token = [] then (Inl (Error no_token_long), st)
      else
        (case getLatestFromGitHub P cfg net token st of
           (Inl e, st1) \<Rightarrow> (Inl e, st1)
         | (Inr _, st1) \<Rightarrow>
             (let slug = uniqueSlug (slugify (unicode_lower P) name) (map fst (st_versions st1));
                  st2 = st1\<lparr>st_versions :=
                          AList.update slug
                            \<lparr>v_name = name, v_id = slug, v_createdAt = Some now,
                             v_updatedAt = Some now, v_config = getCurrentConfig cfg\<rparr>
                            (st_versions st1)\<rparr>;
                  fileContent = json_stringify_store P (st_versions st2)
              in case saveFileToGitHub net (versionsPath cfg) fileContent
                        (commit_message (js ''Ny versjon: '') name cfg) token (st_sha st2) st2 of
                   (Inl e, st3) \<Rightarrow> (Inl e, st3)
                 | (Inr _, st3) \<Rightarrow>
                     (Inr slug,
                      st3\<lparr>st_storage := (st_storage st3)
                             (cache_key cfg \<mapsto> json_stringify P (st_versions st3))\<rparr>))))"

definition updateVersion ::
  "'c platform \<Rightarrow> 'c config \<Rightarrow> network \<Rightarrow> jsstring \<Rightarrow> jsstring \<Rightarrow> 'c state
     \<Rightarrow> (error + unit) \<times> 'c state" where
  "updateVersion P cfg net now ident st =
     (let token = getToken st in
      if token = [] then (Inl (Error no_token_short), st)
      else
        (case getLatestFromGitHub P cfg net token st of
           (Inl e, st1) \<Rightarrow> (Inl e, st1)
         | (Inr _, st1) \<Rightarrow>
             (case get_property P (st_versions st1) ident of
                Inr NotInherited \<Rightarrow> (Inl (Error (js ''Versjon ikke funnet: '' @ ident)), st1)
              | Inr (Inherited extensible name) \<Rightarrow>
                  if \<not> extensible then (Inl TypeError, st1)
                  else
                    (let fileContent = json_stringify_store P (st_versions st1)
                     in case saveFileToGitHub net (versionsPath cfg) fileContent
                               (commit_message (js ''Oppdater versjon: '')
                                  (case name of None \<Rightarrow> js ''undefined'' | Some n \<Rightarrow> n) cfg)
                               token (st_sha st1) st1 of
                          (Inl e, st3) \<Rightarrow> (Inl e, st3)
                        | (Inr _, st3) \<Rightarrow>
                            (Inr (),
                             st3\<lparr>st_storage := (st_storage st3)
                                    (cache_key cfg \<mapsto> json_stringify P (st_versions st3))\<rparr>))
              | Inl v \<Rightarrow>
                  (let v' = v\<lparr>v_config := getCurrentConfig cfg, v_updatedAt := Some now\<rparr>;
                       st2 = st1\<lparr>st_versions := AList.update ident v' (st_versions st1)\<rparr>;
                       fileContent = json_stringify_store P (st_versions st2)
                   in case saveFileToGitHub net (versionsPath cfg) fileContent
                             (commit_message (js ''Oppdater versjon: '') (v_name v') cfg)
                             token (st_sha st2) st2 of
                        (Inl e, st3) \<Rightarrow> (Inl e, st3)
                      | (Inr _, st3) \<Rightarrow>
                          (Inr (),
                           st3\<lparr>st_storage := (st_storage st3)
                                  (cache_key cfg \<mapsto> json_stringify P (st_versions st3))\<rparr>)))))"

definition deleteVersion ::
  "'c platform \<Rightarrow> 'c config \<Rightarrow> network \<Rightarrow> jsstring \<Rightarrow> 'c state \<Rightarrow> (error + unit) \<times> 'c state" where
  "deleteVersion P cfg net ident st =
     (let token = getToken st in
      if token = [] then (Inl (Error no_token_short), st)
      else
        (case getLatestFromGitHub P cfg net token st of
           (Inl e, st1) \<Rightarrow> (Inl e, st1)
         | (Inr _, st1) \<Rightarrow>
             (let name = (case get_property P (st_versions st1) ident of
                            Inl v \<Rightarrow> if v_name v \<noteq> [] then v_name v else ident
                          | Inr (Inherited extensible (Some n)) \<Rightarrow> if n \<noteq> [] then n else ident
                          | Inr _ \<Rightarrow> ident);
                  st2 = st1\<lparr>st_versions := AList.delete ident (st_versions st1)\<rparr>;
                  fileContent = json_stringify_store P (st_versions st2)
              in case saveFileToGitHub net (versionsPath cfg) fileContent
                        (commit_message (js ''Slett versjon: '') name cfg) token (st_sha st2) st2 of
                   (Inl e, st3) \<Rightarrow> (Inl e, st3)
                 | (Inr _, st3) \<Rightarrow>
                     (Inr (),
                      st3\<lparr>st_storage := (st_storage st3)
                             (cache_key cfg \<mapsto> json_stringify P (st_versions st3))\<rparr>))))"

subsection \<open>The remote state in a response, and the three mutations\<close>

text \<open>
  What \<open>getFileFromGitHub\<close> and \<open>_getLatestFromGitHub\<close> together take out of the answer
  to the read of the store file: the version mapping and the version tag (no mapping and
  no tag when the file does not exist yet), or the error they throw.
\<close>

definition read_store ::
  "'c platform \<Rightarrow> fetch_result \<Rightarrow> error + ('c versions \<times> jsstring option)" where
  "read_store P answer =
     (case answer of
        NetworkFailure \<Rightarrow> Inl TypeError
      | Response resp \<Rightarrow>
          if rs_status resp = 404 then Inr ([], None)
          else if \<not> ok resp then Inl (read_failed (rs_status resp))
          else (case rs_json resp of
                  None \<Rightarrow> Inl SyntaxError
                | Some data \<Rightarrow>
                    (case jb_content data of
                       None \<Rightarrow> Inl TypeError
                     | Some base64 \<Rightarrow>
                         (case base64ToUtf8 base64 of
                            Inl e \<Rightarrow> Inl e
                          | Inr text \<Rightarrow>
                              (case json_parse P text of
                                 NotJson \<Rightarrow> Inl SyntaxError
                               | JsonNull \<Rightarrow> Inl TypeError
                               | JsonObject vs \<Rightarrow>
                                   Inr (case vs of None \<Rightarrow> [] | Some m \<Rightarrow> m,
                                        Some (jb_sha data)))))))"

text \<open>
  The operations as the specification lists them, and the change each makes to a
  mapping: save inserts a new record under a fresh slug; update overwrites \<open>config\<close> and
  \<open>updatedAt\<close> of the record, leaves the mapping as it is when the id is no key of the
  mapping but names an extensible value of \<open>Object.prototype\<close>, and fails otherwise;
  delete removes the record if it is there.
\<close>

datatype operation = Save jsstring | Update jsstring | Delete jsstring



subsection \<open>The listing of \<open>_renderList\<close>\<close>

text \<open>
  \<open>new Date(v.updatedAt || v.createdAt)\<close>: an absent or empty \<open>updatedAt\<close> falls back to
  \<open>createdAt\<close>; the date of \<open>undefined\<close> is invalid.
\<close>

definition time_value :: "'c platform \<Rightarrow> 'c version \<Rightarrow> int option" where
  "time_value P v =
     (let stamp = (case v_updatedAt v of
                     None \<Rightarrow> v_createdAt v
                   | Some u \<Rightarrow> if u \<noteq> [] then Some u else v_createdAt v)
      in case stamp of None \<Rightarrow> None | Some s \<Rightarrow> date_ms P s)"

text \<open>
  The comparator \<open>(a, b) => new Date(...b) - new Date(...a)\<close>. With an invalid date the
  difference is \<open>NaN\<close>, which \<open>sort\<close> takes for \<open>+0\<close>.
\<close>

definition by_recency :: "'c platform \<Rightarrow> 'c version \<Rightarrow> 'c version \<Rightarrow> int" where
  "by_recency P a b =
     (case (time_value P b, time_value P a) of
        (Some tb, Some ta) \<Rightarrow> tb - ta
      | _ \<Rightarrow> 0)"

text \<open>
  \<open>Array.prototype.sort\<close> is stable: with a consistent comparator its result is the sorted
  arrangement that keeps equal elements in their order, which insertion from the right
  computes.
\<close>

fun insert_by :: "('a \<Rightarrow> 'a \<Rightarrow> int) \<Rightarrow> 'a \<Rightarrow> 'a list \<Rightarrow> 'a list" where
  "insert_by cmp x [] = [x]"
| "insert_by cmp x (y # ys) = (if cmp x y \<le> 0 then x # y # ys else y # insert_by cmp x ys)"

definition array_sort :: "('a \<Rightarrow> 'a \<Rightarrow> int) \<Rightarrow> 'a list \<Rightarrow> 'a list" where
  "array_sort cmp xs = foldr (insert_by cmp) xs []"

text \<open>\<open>ids.map(id => _versions[id]).sort(...)\<close> with \<open>ids = Object.keys(_versions)\<close>.\<close>

definition sorted_versions :: "'c platform \<Rightarrow> 'c versions \<Rightarrow> 'c version list" where
  "sorted_versions P versions = array_sort (by_recency P) (map snd versions)"

section \<open>Embed resizer (embed.js and its second copy)\<close>















section \<open>A small environment for examples\<close>

text \<open>
  A page configuration, a platform whose dates are \<open>t1\<close> before \<open>t2\<close>, a remote store
  that has no store file yet and accepts every write, and a browser that holds a token.
\<close>

definition example_platform :: "nat platform" where
  "example_platform =
     \<lparr>unicode_lower = (\<lambda>s. s),
      json_parse = (\<lambda>s. JsonObject None),
      json_stringify_store = (\<lambda>m. js ''{}''),
      json_stringify = (\<lambda>m. js ''{}''),
      date_ms = (\<lambda>s. if s = js ''t1'' then Some 1 else if s = js ''t2'' then Some 2 else None),
      object_prototype = browser_prototype\<rparr>"

definition example_config :: "nat config" where
  "example_config =
     \<lparr>chartType = js ''bar'', versionsPath = js ''v.json'', publicUrl = js ''bar.html'',
      getCurrentConfig = 7\<rparr>"

definition example_network :: network where
  "example_network rq =
     (case rq_method rq of
        GET \<Rightarrow> Response \<lparr>rs_status = 404, rs_json = None\<rparr>
      | PUT \<Rightarrow> Response \<lparr>rs_status = 201,
                          rs_json = Some \<lparr>jb_sha = js ''s1'', jb_content = None, jb_message = [],
                                          jb_commit_url = js ''c1''\<rparr>\<rparr>)"

definition example_state :: "nat state" where
  "example_state =
     \<lparr>st_versions = [], st_sha = None,
      st_storage = [GITHUB_TOKEN_KEY \<mapsto> js ''tok''], st_sent = []\<rparr>"



definition stored_network :: network where
  "stored_network rq =
     (case rq_method rq of
        GET \<Rightarrow> Response \<lparr>rs_status = 200,
                          rs_json = Some \<lparr>jb_sha = js ''s0'', jb_content = Some (js ''e30=''),
                                          jb_message = [], jb_commit_url = []\<rparr>\<rparr>
      | PUT \<Rightarrow> Response \<lparr>rs_status = 200,
                          rs_json = Some \<lparr>jb_sha = js ''s1'', jb_content = None, jb_message = [],
                                          jb_commit_url = js ''c1''\<rparr>\<rparr>)"

text \<open>A remote store that refuses every request with one status and one message.\<close>

definition refusing_network :: "nat \<Rightarrow> jsstring \<Rightarrow> network" where
  "refusing_network code msg rq =
     Response \<lparr>rs_status = code,
               rs_json = Some \<lparr>jb_sha = [], jb_content = None, jb_message = msg,
                               jb_commit_url = []\<rparr>\<rparr>"

text \<open>A remote store whose file has the tag \<open>s0\<close> and that answers every write with 409.\<close>

definition conflicting_network :: network where
  "conflicting_network rq =
     (case rq_method rq of
        GET \<Rightarrow> Response \<lparr>rs_status = 200,
                          rs_json = Some \<lparr>jb_sha = js ''s0'', jb_content = None, jb_message = [],
                                          jb_commit_url = []\<rparr>\<rparr>
      | PUT \<Rightarrow> Response \<lparr>rs_status = 409, rs_json = None\<rparr>)"



section \<open>Properties of the encoding utility\<close>

lemma is_lead_unat: "is_lead c \<longleftrightarrow> 0xD800 \<le> unat c \<and> unat c \<le> 0xDBFF"
  by (simp add: is_lead_def word_le_nat_alt)

lemma is_trail_unat: "is_trail c \<longleftrightarrow> 0xDC00 \<le> unat c \<and> unat c \<le> 0xDFFF"
  by (simp add: is_trail_def word_le_nat_alt)

lemma unat_unit_bound: "unat (c :: 16 word) < 0x10000"
  using unsigned_less [of c, where 'a = nat] by simp

lemma div_bound: "0 < q \<Longrightarrow> m < n * q \<Longrightarrow> m div q < (n::nat)"
  by (simp add: div_less_iff_less_mult)

lemma utf8_bytes_bound:
  assumes "cp < 0x110000" and "b \<in> set (utf8_bytes cp)"
  shows "b < 256"
proof -
  have m: "x mod 0x40 < (0x40::nat)" for x by simp
  consider "cp < 0x80" | "0x80 \<le> cp" "cp < 0x800" | "0x800 \<le> cp" "cp < 0x10000"
    | "0x10000 \<le> cp" by linarith
  then show ?thesis
  proof cases
    case 1
    with assms show ?thesis by (simp add: utf8_bytes_def)
  next
    case 2
    have "cp div 0x40 < 0x20" using 2 by (intro div_bound) simp_all
    with 2 assms m [of cp] show ?thesis by (auto simp: utf8_bytes_def)
  next
    case 3
    have "cp div 0x1000 < 0x10" using 3 by (intro div_bound) simp_all
    with 3 assms m [of cp] m [of "cp div 0x40"] show ?thesis by (auto simp: utf8_bytes_def)
  next
    case 4
    have "cp div 0x40000 < 0x10" using assms by (intro div_bound) simp_all
    with 4 assms m [of cp] m [of "cp div 0x40"] m [of "cp div 0x1000"]
    show ?thesis by (auto simp: utf8_bytes_def)
  qed
qed


lemma pair_value_bounds:
  assumes "0xD800 \<le> a" "a \<le> 0xDBFF" "0xDC00 \<le> b" "b \<le> (0xDFFF::nat)"
  shows "0x10000 \<le> 0x10000 + (a - 0xD800) * 0x400 + (b - 0xDC00)"
    and "0x10000 + (a - 0xD800) * 0x400 + (b - 0xDC00) < 0x110000"
proof -
  show "0x10000 \<le> 0x10000 + (a - 0xD800) * 0x400 + (b - 0xDC00)" by simp
  have "a - 0xD800 \<le> 0x3FF" using assms by simp
  then have "(a - 0xD800) * 0x400 \<le> 0x3FF * 0x400" by (rule mult_le_mono1)
  moreover have "b - 0xDC00 \<le> 0x3FF" using assms by simp
  ultimately show "0x10000 + (a - 0xD800) * 0x400 + (b - 0xDC00) < 0x110000" by simp
qed

lemma code_points_scalar: "cp \<in> set (code_points s) \<Longrightarrow> scalar cp"
proof (induction s arbitrary: cp rule: code_points.induct)
  case 1
  then show ?case by simp
next
  case (2 c)
  then show ?case using unat_unit_bound [of c]
    by (auto simp: scalar_def is_lead_unat is_trail_unat split: if_splits)
next
  case (3 c d s)
  show ?case
  proof (cases "is_lead c \<and> is_trail d")
    case True
    then have b: "0xD800 \<le> unat c" "unat c \<le> 0xDBFF" "0xDC00 \<le> unat d" "unat d \<le> 0xDFFF"
      by (simp_all add: is_lead_unat is_trail_unat)
    let ?v = "0x10000 + (unat c - 0xD800) * 0x400 + (unat d - 0xDC00)"
    from "3.prems" True have "cp = ?v \<or> cp \<in> set (code_points s)" by simp
    then show ?thesis
    proof
      assume "cp = ?v"
      with pair_value_bounds [OF b] show ?thesis by (simp add: scalar_def)
    next
      assume "cp \<in> set (code_points s)"
      with "3.IH"(1) True show ?thesis by simp
    qed
  next
    case False
    show ?thesis
    proof (cases "is_lead c \<or> is_trail c")
      case True
      with False "3.prems" have "cp = 0xFFFD \<or> cp \<in> set (code_points (d # s))" by auto
      with "3.IH"(2) [OF False True] show ?thesis by (auto simp: scalar_def)
    next
      case nl: False
      with False "3.prems" have "cp = unat c \<or> cp \<in> set (code_points (d # s))" by auto
      with "3.IH"(3) [OF False nl] nl unat_unit_bound [of c] show ?thesis
        by (auto simp: scalar_def is_lead_unat is_trail_unat)
    qed
  qed
qed

lemma text_encode_bound: "b \<in> set (text_encode s) \<Longrightarrow> b < 256"
  using code_points_scalar utf8_bytes_bound
  by (fastforce simp: text_encode_def scalar_def)

lemma decode_one:
  "b \<le> 0x7F \<Longrightarrow>
   utf8_decode 0 0 0 0x80 0xBF (b # rest) = b # utf8_decode 0 0 0 0x80 0xBF rest"
  by simp

lemma decode_two:
  assumes "0xC2 \<le> b1" "b1 \<le> 0xDF" "0x80 \<le> b2" "b2 \<le> 0xBF"
  shows "utf8_decode 0 0 0 0x80 0xBF (b1 # b2 # rest)
         = ((b1 mod 0x20) * 0x40 + b2 mod 0x40) # utf8_decode 0 0 0 0x80 0xBF rest"
  using assms by simp

lemma decode_three:
  assumes "0xE0 \<le> b1" "b1 \<le> 0xEF"
    and "(if b1 = 0xE0 then 0xA0 else 0x80) \<le> b2"
    and "b2 \<le> (if b1 = 0xED then 0x9F else 0xBF)"
    and "0x80 \<le> b3" "b3 \<le> 0xBF"
  shows "utf8_decode 0 0 0 0x80 0xBF (b1 # b2 # b3 # rest)
         = (((b1 mod 0x10) * 0x40 + b2 mod 0x40) * 0x40 + b3 mod 0x40)
           # utf8_decode 0 0 0 0x80 0xBF rest"
  using assms by (simp split: if_splits)

lemma decode_four:
  assumes "0xF0 \<le> b1" "b1 \<le> 0xF4"
    and "(if b1 = 0xF0 then 0x90 else 0x80) \<le> b2"
    and "b2 \<le> (if b1 = 0xF4 then 0x8F else 0xBF)"
    and "0x80 \<le> b3" "b3 \<le> 0xBF" "0x80 \<le> b4" "b4 \<le> 0xBF"
  shows "utf8_decode 0 0 0 0x80 0xBF (b1 # b2 # b3 # b4 # rest)
         = ((((b1 mod 8) * 0x40 + b2 mod 0x40) * 0x40 + b3 mod 0x40) * 0x40 + b4 mod 0x40)
           # utf8_decode 0 0 0 0x80 0xBF rest"
  using assms by (simp split: if_splits)




lemma div_4096: "(cp::nat) div 0x1000 = cp div 0x40 div 0x40"
proof -
  have "cp div 0x1000 = cp div (0x40 * 0x40)" by simp
  also have "\<dots> = cp div 0x40 div 0x40" by (rule div_mult2_eq)
  finally show ?thesis .
qed

lemma div_262144: "(cp::nat) div 0x40000 = cp div 0x40 div 0x40 div 0x40"
proof -
  have "cp div 0x40000 = cp div (0x40 * 0x1000)" by simp
  also have "\<dots> = cp div 0x40 div 0x1000" by (rule div_mult2_eq)
  finally show ?thesis by (simp add: div_4096)
qed

lemma add_mod_small: "k mod m = 0 \<Longrightarrow> x < m \<Longrightarrow> (k + x) mod m = (x::nat)"
  using mod_add_eq [of k m x] by simp

lemma decode_utf8_bytes:
  assumes "scalar cp"
  shows "utf8_decode 0 0 0 0x80 0xBF (utf8_bytes cp @ rest)
         = cp # utf8_decode 0 0 0 0x80 0xBF rest"
proof -
  define t where "t = cp div 0x40"
  define r where "r = cp mod 0x40"
  have cp: "cp = t * 0x40 + r" and r: "r < 0x40" by (simp_all add: t_def r_def)
  consider "cp < 0x80" | "0x80 \<le> cp" "cp < 0x800" | "0x800 \<le> cp" "cp < 0x10000"
    | "0x10000 \<le> cp" by linarith
  then show ?thesis
  proof cases
    case 1
    then show ?thesis by (simp add: utf8_bytes_def)
  next
    case 2
    then have b: "utf8_bytes cp = [0xC0 + t, 0x80 + r]"
      by (simp add: utf8_bytes_def t_def r_def)
    from 2 cp r have t: "2 \<le> t" "t < 0x20" by linarith+
    have m1: "(0xC0 + t) mod 0x20 = t" by (rule add_mod_small) (use t in simp_all)
    have m2: "(0x80 + r) mod 0x40 = r" by (rule add_mod_small) (use r in simp_all)
    have "utf8_decode 0 0 0 0x80 0xBF ((0xC0 + t) # (0x80 + r) # rest)
          = (((0xC0 + t) mod 0x20) * 0x40 + (0x80 + r) mod 0x40)
            # utf8_decode 0 0 0 0x80 0xBF rest"
      using t r by (intro decode_two) simp_all
    then show ?thesis by (simp only: b m1 m2 cp [symmetric] append_Cons append_Nil)
  next
    case 3
    define q1 where "q1 = t div 0x40"
    define q2 where "q2 = t mod 0x40"
    have tq: "t = q1 * 0x40 + q2" and q2: "q2 < 0x40" by (simp_all add: q1_def q2_def)
    from 3 have b: "utf8_bytes cp = [0xE0 + q1, 0x80 + q2, 0x80 + r]"
      by (simp add: utf8_bytes_def div_4096 t_def r_def q1_def q2_def)
    from 3 cp r have t: "0x20 \<le> t" "t < 0x400" by linarith+
    with tq q2 have q1: "q1 < 0x10" by linarith
    from assms 3 have ns: "cp < 0xD800 \<or> 0xDFFF < cp" by (auto simp: scalar_def)
    have lo: "(if 0xE0 + q1 = 0xE0 then 0xA0 else 0x80) \<le> 0x80 + q2"
      using t tq q2 by (auto split: if_splits)
    have hi: "0x80 + q2 \<le> (if 0xE0 + q1 = 0xED then 0x9F else 0xBF)"
    proof (cases "q1 = 0xD")
      case True
      with tq have "t = 0x340 + q2" by simp
      with cp r ns 3 q2 have "q2 < 0x20" by linarith
      with True show ?thesis by simp
    next
      case False
      with q2 show ?thesis by simp
    qed
    have m1: "(0xE0 + q1) mod 0x10 = q1" by (rule add_mod_small) (use q1 in simp_all)
    have m2: "(0x80 + q2) mod 0x40 = q2" by (rule add_mod_small) (use q2 in simp_all)
    have m3: "(0x80 + r) mod 0x40 = r" by (rule add_mod_small) (use r in simp_all)
    have "utf8_decode 0 0 0 0x80 0xBF ((0xE0 + q1) # (0x80 + q2) # (0x80 + r) # rest)
          = ((((0xE0 + q1) mod 0x10) * 0x40 + (0x80 + q2) mod 0x40) * 0x40 + (0x80 + r) mod 0x40)
            # utf8_decode 0 0 0 0x80 0xBF rest"
      using q1 q2 r lo hi by (intro decode_three) simp_all
    then show ?thesis
      by (simp only: b m1 m2 m3 tq [symmetric] cp [symmetric] append_Cons append_Nil)
  next
    case 4
    define u where "u = t div 0x40"
    define q3 where "q3 = t mod 0x40"
    define q1 where "q1 = u div 0x40"
    define q2 where "q2 = u mod 0x40"
    have tu: "t = u * 0x40 + q3" and q3: "q3 < 0x40" by (simp_all add: u_def q3_def)
    have uq: "u = q1 * 0x40 + q2" and q2: "q2 < 0x40" by (simp_all add: q1_def q2_def)
    from 4 have b: "utf8_bytes cp = [0xF0 + q1, 0x80 + q2, 0x80 + q3, 0x80 + r]"
      by (simp add: utf8_bytes_def div_4096 div_262144 t_def r_def q1_def q2_def q3_def u_def)
    from assms have "cp < 0x110000" by (simp add: scalar_def)
    with 4 cp r have t: "0x400 \<le> t" "t < 0x4400" by linarith+
    with tu q3 have u: "0x10 \<le> u" "u < 0x110" by linarith+
    with uq q2 have q1: "q1 \<le> 4" by linarith
    have lo: "(if 0xF0 + q1 = 0xF0 then 0x90 else 0x80) \<le> 0x80 + q2"
      using u uq q2 by (auto split: if_splits)
    have hi: "0x80 + q2 \<le> (if 0xF0 + q1 = 0xF4 then 0x8F else 0xBF)"
    proof (cases "q1 = 4")
      case True
      with uq u have "q2 < 0x10" by linarith
      with True show ?thesis by simp
    next
      case False
      with q2 show ?thesis by simp
    qed
    have m1: "(0xF0 + q1) mod 8 = q1" by (rule add_mod_small) (use q1 in simp_all)
    have m2: "(0x80 + q2) mod 0x40 = q2" by (rule add_mod_small) (use q2 in simp_all)
    have m3: "(0x80 + q3) mod 0x40 = q3" by (rule add_mod_small) (use q3 in simp_all)
    have m4: "(0x80 + r) mod 0x40 = r" by (rule add_mod_small) (use r in simp_all)
    have "utf8_decode 0 0 0 0x80 0xBF
            ((0xF0 + q1) # (0x80 + q2) # (0x80 + q3) # (0x80 + r) # rest)
          = (((((0xF0 + q1) mod 8) * 0x40 + (0x80 + q2) mod 0x40) * 0x40
               + (0x80 + q3) mod 0x40) * 0x40 + (0x80 + r) mod 0x40)
            # utf8_decode 0 0 0 0x80 0xBF rest"
      using q1 q2 q3 r lo hi by (intro decode_four) simp_all
    then show ?thesis
      by (simp only: b m1 m2 m3 m4 uq [symmetric] tu [symmetric] cp [symmetric]
          append_Cons append_Nil)
  qed
qed

lemma decode_encode_points:
  "(\<And>cp. cp \<in> set cps \<Longrightarrow> scalar cp) \<Longrightarrow>
   utf8_decode 0 0 0 0x80 0xBF (concat (map utf8_bytes cps)) = cps"
proof (induction cps)
  case Nil
  show ?case by simp
next
  case (Cons c cps)
  then show ?case by (simp add: decode_utf8_bytes del: utf8_decode.simps)
qed

lemma unat_of_nat_unit: "n < 0x10000 \<Longrightarrow> unat (of_nat n :: 16 word) = n"
  by (rule of_nat_inverse [OF refl]) simp

lemma utf16_units_bmp:
  "\<not> is_lead c \<Longrightarrow> \<not> is_trail c \<Longrightarrow> utf16_units (unat c) = [c]"
  using unat_unit_bound [of c] by (simp add: utf16_units_def)

lemma utf16_units_pair:
  assumes "is_lead c" "is_trail d"
  shows "utf16_units (0x10000 + (unat c - 0xD800) * 0x400 + (unat d - 0xDC00)) = [c, d]"
proof -
  from assms have b: "0xD800 \<le> unat c" "unat c \<le> 0xDBFF" "0xDC00 \<le> unat d" "unat d \<le> 0xDFFF"
    by (simp_all add: is_lead_unat is_trail_unat)
  let ?a = "unat c - 0xD800" and ?b = "unat d - 0xDC00"
  have lt: "?b < 0x400" using b by simp
  have dv: "(?a * 0x400 + ?b) div 0x400 = ?a" using lt by simp
  have md: "(?a * 0x400 + ?b) mod 0x400 = ?b" using lt by simp
  have c: "of_nat (0xD800 + ?a) = c" using b by simp
  have d: "of_nat (0xDC00 + ?b) = d" using b by simp
  have "\<not> 0x10000 + ?a * 0x400 + ?b < 0x10000" by simp
  moreover have "0x10000 + ?a * 0x400 + ?b - 0x10000 = ?a * 0x400 + ?b" by simp
  ultimately show ?thesis
    unfolding utf16_units_def by (simp only: if_False dv md c d)
qed

lemma utf16_code_points: "well_formed s \<Longrightarrow> concat (map utf16_units (code_points s)) = s"
proof (induction s rule: code_points.induct)
  case 1
  show ?case by simp
next
  case (2 c)
  then show ?case by (simp add: utf16_units_bmp)
next
  case (3 c d s)
  show ?case
  proof (cases "is_lead c")
    case True
    with "3.prems" have "is_trail d" "well_formed s" by simp_all
    with True "3.IH"(1) show ?thesis by (simp add: utf16_units_pair del: code_points.simps(3)
          add: code_points.simps(3) [of c d s])
  next
    case False
    with "3.prems" have nt: "\<not> is_trail c" and w: "well_formed (d # s)" by simp_all
    from False nt have "\<not> (is_lead c \<and> is_trail d)" "\<not> (is_lead c \<or> is_trail c)" by simp_all
    with "3.IH"(3) w False nt show ?thesis by (simp add: utf16_units_bmp)
  qed
qed

lemma strip_bom_code_points:
  assumes "take 1 s \<noteq> [0xFEFF]"
  shows "strip_bom (code_points s) = code_points s"
proof (cases "code_points s")
  case Nil
  then show ?thesis by (simp add: strip_bom_def)
next
  case (Cons p ps)
  have "p \<noteq> 0xFEFF"
  proof (cases s rule: code_points.cases)
    case 1
    with Cons show ?thesis by simp
  next
    case (2 c)
    with assms have "c \<noteq> 0xFEFF" by simp
    then have "unat c \<noteq> 0xFEFF" by (simp add: word_unat_eq_iff)
    with 2 Cons show ?thesis by (auto split: if_splits)
  next
    case (3 c d r)
    with assms have "c \<noteq> 0xFEFF" by simp
    then have "unat c \<noteq> 0xFEFF" by (simp add: word_unat_eq_iff)
    with 3 Cons show ?thesis by (auto split: if_splits)
  qed
  with Cons show ?thesis by (simp add: strip_bom_def)
qed

lemma pack_4_16: "x < 4 \<Longrightarrow> y < 16 \<Longrightarrow> x * 16 + y < (64::nat)"
  by linarith

lemma pack_16_4: "x < 16 \<Longrightarrow> y < 4 \<Longrightarrow> x * 4 + y < (64::nat)"
  by linarith

lemma sextets_bound:
  "(\<And>b. b \<in> set bs \<Longrightarrow> b < 256) \<Longrightarrow> x \<in> set (sextets bs) \<Longrightarrow> x < 64"
proof (induction bs arbitrary: x rule: sextets.induct)
  case (1 a b c r)
  have a: "a < 256" and b: "b < 256" and c: "c < 256" using "1.prems"(1) by simp_all
  have "a div 4 < 64" using a by (intro div_bound) simp_all
  moreover have "b div 16 < 16" using b by (intro div_bound) simp_all
  moreover have "c div 64 < 4" using c by (intro div_bound) simp_all
  moreover have "(a mod 4) * 16 + b div 16 < 64"
    using b by (intro pack_4_16 div_bound) simp_all
  moreover have "(b mod 16) * 4 + c div 64 < 64"
    using c by (intro pack_16_4 div_bound) simp_all
  ultimately have "\<forall>y \<in> {a div 4, (a mod 4) * 16 + b div 16, (b mod 16) * 4 + c div 64, c mod 64}.
      y < 64" by simp
  moreover have "y \<in> set (sextets r) \<Longrightarrow> y < 64" for y
    using "1.IH" "1.prems"(1) by simp
  ultimately show ?case using "1.prems"(2) by auto
next
  case (2 a b)
  have a: "a < 256" and b: "b < 256" using "2.prems"(1) by simp_all
  have "a div 4 < 64" using a by (intro div_bound) simp_all
  moreover have "(a mod 4) * 16 + b div 16 < 64"
    using b by (intro pack_4_16 div_bound) simp_all
  moreover have "(b mod 16) * 4 + 0 < 64"
    by (intro pack_16_4) simp_all
  ultimately show ?case using "2.prems"(2) by auto
next
  case (3 a)
  have a: "a < 256" using "3.prems"(1) by simp
  have "a div 4 < 64" using a by (intro div_bound) simp_all
  moreover have "(a mod 4) * 16 + 0 < 64"
    by (intro pack_4_16) simp_all
  ultimately show ?case using "3.prems"(2) by auto
next
  case 4
  then show ?case by simp
qed

lemma regroup: "y < n \<Longrightarrow> (x * n + y) div n = (x::nat) \<and> (x * n + y) mod n = y"
  by simp

lemma octets_sextets: "(\<And>b. b \<in> set bs \<Longrightarrow> b < 256) \<Longrightarrow> octets (sextets bs) = bs"
proof (induction bs rule: sextets.induct)
  case (1 a b c r)
  have b: "b < 256" and c: "c < 256" using "1.prems" by simp_all
  have b16: "b div 16 < 16" using b by (intro div_bound) simp_all
  have c64: "c div 64 < 4" using c by (intro div_bound) simp_all
  have "octets (sextets r) = r" using "1.IH" "1.prems" by simp
  then show ?case
    using regroup [OF b16, of "a mod 4"] regroup [OF c64, of "b mod 16"] by simp
next
  case (2 a b)
  have b: "b < 256" using "2.prems" by simp
  have b16: "b div 16 < 16" using b by (intro div_bound) simp_all
  show ?case using regroup [OF b16, of "a mod 4"] by simp
next
  case (3 a)
  show ?case by simp
next
  case 4
  show ?case by simp
qed

lemma length_sextets:
  "length (sextets bs) = 4 * (length bs div 3)
     + (if length bs mod 3 = 0 then 0 else length bs mod 3 + 1)"
proof (induction bs rule: sextets.induct)
  case (1 a b c r)
  have "(3 + length r) div 3 = Suc (length r div 3)" "(3 + length r) mod 3 = length r mod 3"
    by simp_all
  with 1 show ?case by simp
qed simp_all

lemma b64_value_of_nat:
  assumes "n < 0x10000"
  shows "b64_value (of_nat n) =
     (if 0x41 \<le> n \<and> n \<le> 0x5A then Some (n - 0x41)
      else if 0x61 \<le> n \<and> n \<le> 0x7A then Some (n - 0x61 + 26)
      else if 0x30 \<le> n \<and> n \<le> 0x39 then Some (n - 0x30 + 52)
      else if n = 0x2B then Some 62
      else if n = 0x2F then Some 63
      else None)"
  unfolding b64_value_def word_le_nat_alt word_unat_eq_iff [of "of_nat n"]
  by (simp add: unat_of_nat_unit [OF assms])

lemma b64_value_char: "i < 64 \<Longrightarrow> b64_value (b64_char i) = Some i"
proof -
  assume i: "i < 64"
  consider "i < 26" | "26 \<le> i" "i < 52" | "52 \<le> i" "i < 62" | "i = 62" | "i = 63"
    using i by linarith
  then show ?thesis
  proof cases
    case 1
    then have "b64_char i = of_nat (0x41 + i)" by (simp add: b64_char_def)
    moreover have "b64_value (of_nat (0x41 + i)) = Some i"
      using 1 by (subst b64_value_of_nat) simp_all
    ultimately show ?thesis by simp
  next
    case 2
    define j where "j = i - 26"
    with 2 have j: "i = 26 + j" "j < 26" by simp_all
    then have "b64_char i = of_nat (0x61 + j)" by (simp add: b64_char_def)
    moreover have "b64_value (of_nat (0x61 + j)) = Some (26 + j)"
      using j by (subst b64_value_of_nat) simp_all
    ultimately show ?thesis using j by simp
  next
    case 3
    define j where "j = i - 52"
    with 3 have j: "i = 52 + j" "j < 10" by simp_all
    then have "b64_char i = of_nat (0x30 + j)" by (simp add: b64_char_def)
    moreover have "b64_value (of_nat (0x30 + j)) = Some (52 + j)"
      using j by (subst b64_value_of_nat) simp_all
    ultimately show ?thesis using j by simp
  next
    case 4
    then show ?thesis by (simp add: b64_char_def b64_value_def)
  next
    case 5
    then show ?thesis by (simp add: b64_char_def b64_value_def)
  qed
qed

lemma b64_char_plain:
  assumes "i < 64"
  shows "\<not> ascii_whitespace (b64_char i)" and "b64_char i \<noteq> equals_sign"
proof -
  have v: "b64_value (b64_char i) = Some i" by (rule b64_value_char [OF assms])
  have "b64_value c = None" if "ascii_whitespace c" for c
    using that by (auto simp: ascii_whitespace_def b64_value_def)
  with v show "\<not> ascii_whitespace (b64_char i)" by force
  have "b64_value equals_sign = None" by (simp add: equals_sign_def b64_value_def)
  with v show "b64_char i \<noteq> equals_sign" by force
qed

lemma those_b64_values:
  "(\<And>x. x \<in> set xs \<Longrightarrow> x < 64) \<Longrightarrow> those (map b64_value (map b64_char xs)) = Some xs"
  by (induction xs) (simp_all add: b64_value_char)

lemma strip_padding_body:
  assumes "\<And>c. c \<in> set body \<Longrightarrow> c \<noteq> equals_sign" and "k \<le> 2"
    and "length (body @ replicate k equals_sign) mod 4 = 0"
  shows "strip_padding (body @ replicate k equals_sign) = body"
proof -
  have nl: "body \<noteq> [] \<Longrightarrow> last body \<noteq> equals_sign" using assms(1) last_in_set by blast
  from assms(2) consider "k = 0" | "k = 1" | "k = 2" by linarith
  then show ?thesis
  proof cases
    case 1
    with nl assms(3) show ?thesis by (auto simp: strip_padding_def)
  next
    case 2
    then have r: "replicate k equals_sign = [equals_sign]" by simp
    show ?thesis using nl assms(3) unfolding r strip_padding_def by auto
  next
    case 3
    then have r: "replicate k equals_sign = [equals_sign, equals_sign]"
      by (simp add: numeral_2_eq_2)
    have bl: "butlast (body @ [equals_sign, equals_sign]) = body @ [equals_sign]"
      by (simp add: butlast_append)
    show ?thesis using assms(3) unfolding r strip_padding_def bl by simp
  qed
qed

lemma of_nat_byte_small: "b < 256 \<Longrightarrow> \<not> 0xFF < (of_nat b :: 16 word)"
  by (simp add: word_less_nat_alt unat_of_nat_unit)

lemma unat_of_nat_byte: "b < 256 \<Longrightarrow> unat (of_nat b :: 16 word) = b"
  by (rule unat_of_nat_unit) simp

lemma unat_of_nat_bytes:
  "(\<And>b. b \<in> set bs \<Longrightarrow> b < 256) \<Longrightarrow> map (unat \<circ> (of_nat :: nat \<Rightarrow> 16 word)) bs = bs"
  by (induction bs) (simp_all add: unat_of_nat_byte)

lemma uint8_of_nat_bytes:
  "(\<And>b. b \<in> set bs \<Longrightarrow> b < 256) \<Longrightarrow>
   map ((\<lambda>u. unat u mod 256) \<circ> (of_nat :: nat \<Rightarrow> 16 word)) bs = bs"
  by (induction bs) (simp_all add: unat_of_nat_byte)

lemma btoa_bytes:
  assumes "\<And>b. b \<in> set bs \<Longrightarrow> b < 256"
  shows "btoa (map of_nat bs) = Inr (b64_text bs)"
proof -
  have "\<not> list_ex (\<lambda>u. 0xFF < u) (map of_nat bs :: jsstring)"
    using assms by (auto simp: list_ex_iff of_nat_byte_small)
  then show ?thesis
    by (simp add: btoa_def unat_of_nat_bytes [OF assms])
qed

lemma atob_b64_text:
  assumes "\<And>b. b \<in> set bs \<Longrightarrow> b < 256"
  shows "atob (filter (\<lambda>c. c \<noteq> 0x0A) (b64_text bs)) = Inr (map of_nat bs)"
proof -
  let ?body = "map b64_char (sextets bs)"
  let ?k = "(3 - length bs mod 3) mod 3"
  have six: "x < 64" if "x \<in> set (sextets bs)" for x
    using sextets_bound [OF assms that] by simp
  have plain: "\<not> ascii_whitespace c \<and> c \<noteq> equals_sign" if "c \<in> set ?body" for c
    using that six b64_char_plain by auto
  have eq_ws: "\<not> ascii_whitespace equals_sign"
    by (simp add: ascii_whitespace_def equals_sign_def)
  have nows: "\<not> ascii_whitespace c" if "c \<in> set (b64_text bs)" for c
    using that plain eq_ws by (auto simp: b64_text_def)
  have "ascii_whitespace 0x0A" by (simp add: ascii_whitespace_def)
  with nows have f1: "filter (\<lambda>c. c \<noteq> 0x0A) (b64_text bs) = b64_text bs"
    by (intro filter_True) metis
  have f2: "filter (\<lambda>c. \<not> ascii_whitespace c) (b64_text bs) = b64_text bs"
    using nows by (intro filter_True) blast
  have m: "length bs mod 3 = 0 \<or> length bs mod 3 = 1 \<or> length bs mod 3 = 2" by linarith
  have len: "length (?body @ replicate ?k equals_sign) mod 4 = 0"
    using m by (auto simp: length_sextets)
  have k: "?k \<le> 2" by simp
  have sp: "strip_padding (b64_text bs) = ?body"
    unfolding b64_text_def using plain k len by (intro strip_padding_body) blast+
  have l1: "length ?body mod 4 \<noteq> 1"
    using m by (auto simp: length_sextets)
  have th: "those (map b64_value ?body) = Some (sextets bs)"
    using six by (intro those_b64_values) blast
  show ?thesis
    unfolding f1 atob_def f2 sp Let_def using l1
    by (simp only: if_False th option.case octets_sextets [OF assms])
qed

lemma code_points_after_bom: "code_points (0xFEFF # r) = 0xFEFF # code_points r"
  by (cases r) (simp_all add: is_lead_def is_trail_def)

lemma well_formed_after_bom: "well_formed (0xFEFF # r) \<Longrightarrow> well_formed r"
  by (cases r) (simp_all add: is_lead_def is_trail_def)

text \<open>
  C4, as amended. For every well-formed string \<open>x\<close> (its surrogates are paired, so it is a
  sequence of Unicode scalar values, multi-byte characters included), \<open>utf8ToBase64 x\<close>
  returns, and \<open>base64ToUtf8\<close> of the result is \<open>x\<close> exactly when \<open>x\<close> does not begin with
  \<open>U+FEFF\<close>, and \<open>x\<close> without its first character when it does.
\<close>

theorem base64_round_trip:
  assumes "well_formed x"
  shows "\<exists>b. utf8ToBase64 x = Inr b
            \<and> base64ToUtf8 b = Inr (if take 1 x = [0xFEFF] then drop 1 x else x)"
proof -
  let ?bytes = "text_encode x"
  have bnd: "b < 256" if "b \<in> set ?bytes" for b using that by (rule text_encode_bound)
  have e: "utf8ToBase64 x = Inr (b64_text ?bytes)"
    unfolding utf8ToBase64_def by (rule btoa_bytes) (rule bnd)
  have a: "atob (filter (\<lambda>c. c \<noteq> 0x0A) (b64_text ?bytes)) = Inr (map of_nat ?bytes)"
    by (rule atob_b64_text) (rule bnd)
  have u: "map ((\<lambda>u. unat u mod 256) \<circ> (of_nat :: nat \<Rightarrow> 16 word)) ?bytes = ?bytes"
    by (rule uint8_of_nat_bytes) (rule bnd)
  have d: "utf8_decode 0 0 0 0x80 0xBF ?bytes = code_points x"
    unfolding text_encode_def by (rule decode_encode_points) (rule code_points_scalar)
  have "text_decode ?bytes = (if take 1 x = [0xFEFF] then drop 1 x else x)"
  proof (cases "take 1 x = [0xFEFF]")
    case True
    then obtain r where x: "x = 0xFEFF # r" by (cases x) simp_all
    with assms have "well_formed r" by (simp add: well_formed_after_bom)
    then have "concat (map utf16_units (code_points r)) = r" by (rule utf16_code_points)
    then show ?thesis
      unfolding text_decode_def d by (simp add: x code_points_after_bom strip_bom_def)
  next
    case False
    then show ?thesis
      unfolding text_decode_def d strip_bom_code_points [OF False]
      by (simp add: utf16_code_points [OF assms])
  qed
  then have "base64ToUtf8 (b64_text ?bytes)
             = Inr (if take 1 x = [0xFEFF] then drop 1 x else x)"
    by (simp add: base64ToUtf8_def a u)
  with e show ?thesis by blast
qed

text \<open>
  The string \<open>M\<close>, o-slash, \<open>rk\<close> followed by a character outside the basic plane (a
  surrogate pair) survives the round trip.
\<close>

theorem base64_round_trip_witness:
  "well_formed ([0x4D, 0xF8] @ js ''rk'' @ [0xD83D, 0xDE00])
   \<and> take 1 ([0x4D, 0xF8] @ js ''rk'' @ [0xD83D, 0xDE00]) \<noteq> [0xFEFF]
   \<and> (\<exists>b. utf8ToBase64 ([0x4D, 0xF8] @ js ''rk'' @ [0xD83D, 0xDE00]) = Inr b
          \<and> base64ToUtf8 b = Inr ([0x4D, 0xF8] @ js ''rk'' @ [0xD83D, 0xDE00]))"
proof -
  have w: "well_formed ([0x4D, 0xF8] @ js ''rk'' @ [0xD83D, 0xDE00])"
    by (simp add: js_def is_lead_def is_trail_def)
  have n: "take 1 ([0x4D, 0xF8] @ js ''rk'' @ [0xD83D, 0xDE00]) \<noteq> [0xFEFF]"
    by simp
  from base64_round_trip [OF w] n w show ?thesis by presburger
qed

text \<open>
  C4, as stated, fails: the one-character string \<open>U+FEFF\<close> is well formed, encodes to
  \<open>77u/\<close> (the bytes \<open>EF BB BF\<close>), and decodes to the empty string, because the decoder of
  \<open>new TextDecoder()\<close> drops a leading byte order mark.
\<close>

theorem byte_order_mark_lost:
  "well_formed [0xFEFF]
   \<and> utf8ToBase64 [0xFEFF] = Inr (js ''77u/'')
   \<and> base64ToUtf8 (js ''77u/'') = Inr []
   \<and> base64ToUtf8 (js ''77u/'') \<noteq> Inr [0xFEFF]"
proof -
  have w: "well_formed [0xFEFF]" by (simp add: is_lead_def is_trail_def)
  have e: "utf8ToBase64 [0xFEFF] = Inr (js ''77u/'')"
    by (simp add: utf8ToBase64_def text_encode_def utf8_bytes_def is_lead_def is_trail_def
        btoa_def b64_text_def b64_char_def equals_sign_def js_def)
  have d: "base64ToUtf8 (js ''77u/'') = Inr []"
    by (simp add: base64ToUtf8_def atob_def strip_padding_def ascii_whitespace_def
        equals_sign_def b64_value_def js_def text_decode_def strip_bom_def Let_def)
  from w e d show ?thesis by simp
qed


section \<open>Properties of the remote file store client\<close>

lemma utf8ToBase64_total: "utf8ToBase64 s = Inr (b64_text (text_encode s))"
  unfolding utf8ToBase64_def by (rule btoa_bytes) (rule text_encode_bound)

lemma getLatest_read_store:
  "getLatestFromGitHub P cfg net token st =
     (case read_store P (net (get_request OWNER REPO (versionsPath cfg) token)) of
        Inl e \<Rightarrow> (Inl e, st\<lparr>st_sent := st_sent st @ [get_request OWNER REPO (versionsPath cfg) token]\<rparr>)
      | Inr (m, tag) \<Rightarrow>
          (Inr (), st\<lparr>st_versions := m, st_sha := tag,
                      st_sent := st_sent st @ [get_request OWNER REPO (versionsPath cfg) token]\<rparr>))"
  by (simp add: getLatestFromGitHub_def getFileFromGitHub_def read_store_def fetch_def
      split: fetch_result.splits option.splits sum.splits parsed.splits)

lemma saveFile_sends:
  "saveFileToGitHub net path content message token sha st =
     (let p = put_request OWNER REPO path token
                \<lparr>pb_message = message, pb_content = b64_text (text_encode content),
                 pb_branch = js ''main'', pb_sha = body_sha sha\<rparr>
      in (case net p of
            NetworkFailure \<Rightarrow> Inl TypeError
          | Response resp \<Rightarrow>
              if \<not> ok resp then Inl (write_failed 0x2013 resp)
              else (case rs_json resp of None \<Rightarrow> Inl SyntaxError | Some result \<Rightarrow> Inr result),
          st\<lparr>st_sent := st_sent st @ [p]\<rparr>))"
  by (simp add: saveFileToGitHub_def utf8ToBase64_total fetch_def Let_def
      split: fetch_result.splits option.splits)

lemma getFileSha_sends:
  "getFileSha net owner repo path token st =
     (case net (get_request owner repo path token) of
        NetworkFailure \<Rightarrow> Inl TypeError
      | Response resp \<Rightarrow>
          if rs_status resp = 404 then Inr None
          else if \<not> ok resp then Inl (read_failed (rs_status resp))
          else (case rs_json resp of None \<Rightarrow> Inl SyntaxError
                | Some data \<Rightarrow> Inr (Some (jb_sha data))),
      st\<lparr>st_sent := st_sent st @ [get_request owner repo path token]\<rparr>)"
  by (simp add: getFileSha_def fetch_def split: fetch_result.splits option.splits)

lemma messages_distinct:
  "invalid_token_message \<noteq> conflict_message dash"
  "invalid_token_message \<noteq> stale_message"
  "conflict_message dash \<noteq> stale_message"
  by (simp_all add: invalid_token_message_def conflict_message_def stale_message_def js_def)

text \<open>
  C2, as amended. For every write (\<open>saveFileToGitHub\<close>, and \<open>saveToGitHub\<close> after its own
  read of the tag): the request leaves \<open>sha\<close> out exactly when the version tag is \<open>null\<close> or
  empty, which asks the store to create the file; a response that is not a success fails
  with the invalid-token error on 401, with the edited-by-others conflict error on 409
  and with the changed-since-last-read error on 422, three different errors; on any other
  status the error's message is the \<open>message\<close> of the response body when that is not
  empty, and \<open>GitHub API feil: <status>\<close> only otherwise.
\<close>

theorem write_outcomes:
  "body_sha None = None \<and> body_sha (Some []) = None
   \<and> (tag \<noteq> [] \<longrightarrow> body_sha (Some tag) = Some tag)
   \<and> st_sent (snd (saveFileToGitHub net path content message token sha st))
       = st_sent st
         @ [put_request OWNER REPO path token
              \<lparr>pb_message = message, pb_content = b64_text (text_encode content),
               pb_branch = js ''main'', pb_sha = body_sha sha\<rparr>]
   \<and> (net (put_request OWNER REPO path token
              \<lparr>pb_message = message, pb_content = b64_text (text_encode content),
               pb_branch = js ''main'', pb_sha = body_sha sha\<rparr>) = Response resp
        \<and> \<not> ok resp
      \<longrightarrow> fst (saveFileToGitHub net path content message token sha st)
            = Inl (Error
                (if rs_status resp = 401 then invalid_token_message
                 else if rs_status resp = 409 then conflict_message 0x2013
                 else if rs_status resp = 422 then stale_message
                 else if (case rs_json resp of None \<Rightarrow> [] | Some err \<Rightarrow> jb_message err) \<noteq> []
                   then (case rs_json resp of None \<Rightarrow> [] | Some err \<Rightarrow> jb_message err)
                 else js ''GitHub API feil: '' @ num_str (rs_status resp))))
   \<and> (fst (getFileSha net owner repo path token st) = Inr sha
        \<and> net (put_request owner repo path token
              \<lparr>pb_message = message, pb_content = b64_text (text_encode content),
               pb_branch = js ''main'', pb_sha = body_sha sha\<rparr>) = Response resp
        \<and> \<not> ok resp
      \<longrightarrow> fst (saveToGitHub net owner repo path content message token st)
            = Inl (Error
                (if rs_status resp = 401 then invalid_token_message
                 else if rs_status resp = 409 then conflict_message 0x2D
                 else if rs_status resp = 422 then stale_message
                 else if (case rs_json resp of None \<Rightarrow> [] | Some err \<Rightarrow> jb_message err) \<noteq> []
                   then (case rs_json resp of None \<Rightarrow> [] | Some err \<Rightarrow> jb_message err)
                 else js ''GitHub API feil: '' @ num_str (rs_status resp))))
   \<and> invalid_token_message \<noteq> conflict_message dash
   \<and> invalid_token_message \<noteq> stale_message
   \<and> conflict_message dash \<noteq> stale_message"
proof -
  have a: "body_sha None = None \<and> body_sha (Some []) = None
           \<and> (tag \<noteq> [] \<longrightarrow> body_sha (Some tag) = Some tag)"
    by (simp add: body_sha_def)
  have b: "st_sent (snd (saveFileToGitHub net path content message token sha st))
       = st_sent st
         @ [put_request OWNER REPO path token
              \<lparr>pb_message = message, pb_content = b64_text (text_encode content),
               pb_branch = js ''main'', pb_sha = body_sha sha\<rparr>]"
    by (simp add: saveFile_sends Let_def)
  have c: "fst (saveFileToGitHub net path content message token sha st)
            = Inl (write_failed 0x2013 resp)"
    if "net (put_request OWNER REPO path token
              \<lparr>pb_message = message, pb_content = b64_text (text_encode content),
               pb_branch = js ''main'', pb_sha = body_sha sha\<rparr>) = Response resp"
      and "\<not> ok resp"
    using that by (simp add: saveFile_sends Let_def)
  have d: "fst (saveToGitHub net owner repo path content message token st)
            = Inl (write_failed 0x2D resp)"
    if "fst (getFileSha net owner repo path token st) = Inr sha"
      and "net (put_request owner repo path token
              \<lparr>pb_message = message, pb_content = b64_text (text_encode content),
               pb_branch = js ''main'', pb_sha = body_sha sha\<rparr>) = Response resp"
      and "\<not> ok resp"
    using that
    by (auto simp: saveToGitHub_def utf8ToBase64_total fetch_def
        split: prod.splits sum.splits)
  have w: "write_failed dash' resp = Error
                (if rs_status resp = 401 then invalid_token_message
                 else if rs_status resp = 409 then conflict_message dash'
                 else if rs_status resp = 422 then stale_message
                 else if (case rs_json resp of None \<Rightarrow> [] | Some err \<Rightarrow> jb_message err) \<noteq> []
                   then (case rs_json resp of None \<Rightarrow> [] | Some err \<Rightarrow> jb_message err)
                 else js ''GitHub API feil: '' @ num_str (rs_status resp))" for dash'
    by (simp add: write_failed_def Let_def)
  from a b c d messages_distinct show ?thesis
    unfolding w by blast
qed

text \<open>
  A store whose file has the tag \<open>s0\<close> and that answers the write with 409: both writers
  send the tag and fail with their conflict error.
\<close>

theorem write_outcomes_witness:
  "js ''s0'' \<noteq> [] \<and> body_sha (Some (js ''s0'')) = Some (js ''s0'')
   \<and> fst (saveFileToGitHub conflicting_network (js ''v.json'') (js ''{}'') (js ''m'')
            (js ''tok'') (Some (js ''s0'')) example_state)
      = Inl (Error (conflict_message 0x2013))
   \<and> fst (getFileSha conflicting_network OWNER REPO (js ''d.csv'') (js ''tok'') example_state)
      = Inr (Some (js ''s0''))
   \<and> fst (saveToGitHub conflicting_network OWNER REPO (js ''d.csv'') (js ''a,b'') (js ''m'')
            (js ''tok'') example_state)
      = Inl (Error (conflict_message 0x2D))"
proof -
  let ?resp = "\<lparr>rs_status = 409, rs_json = None\<rparr>"
  have n: "js ''s0'' \<noteq> []" by (simp add: js_def)
  have p: "conflicting_network (put_request o' r' p' t' b') = Response ?resp" for o' r' p' t' b'
    by (simp add: conflicting_network_def put_request_def)
  have k: "\<not> ok ?resp" by (simp add: ok_def)
  have g: "fst (getFileSha conflicting_network OWNER REPO (js ''d.csv'') (js ''tok'')
              example_state) = Inr (Some (js ''s0''))"
    by (simp add: getFileSha_sends conflicting_network_def get_request_def ok_def)
  from write_outcomes [of "js ''s0''" conflicting_network "js ''v.json''" "js ''{}''" "js ''m''"
      "js ''tok''" "Some (js ''s0'')" example_state ?resp]
  have a: "body_sha (Some (js ''s0'')) = Some (js ''s0'')"
    and b: "fst (saveFileToGitHub conflicting_network (js ''v.json'') (js ''{}'') (js ''m'')
            (js ''tok'') (Some (js ''s0'')) example_state)
      = Inl (Error (conflict_message 0x2013))"
    using n p k by simp_all
  from write_outcomes [of "js ''s0''" conflicting_network "js ''d.csv''" "js ''a,b''" "js ''m''"
      "js ''tok''" "Some (js ''s0'')" example_state ?resp OWNER REPO]
  have c: "fst (saveToGitHub conflicting_network OWNER REPO (js ''d.csv'') (js ''a,b'') (js ''m'')
            (js ''tok'') example_state)
      = Inl (Error (conflict_message 0x2D))"
    using n p k g by simp
  from n a b g c show ?thesis by blast
qed

text \<open>
  C2, as stated, fails in its last part: a 403 and a 500 response whose bodies carry the
  message \<open>Forbidden\<close> both fail with the error \<open>Forbidden\<close>, which does not carry the
  status code.
\<close>

theorem write_error_without_status:
  "fst (saveFileToGitHub (refusing_network 403 (js ''Forbidden'')) (js ''v.json'') (js ''{}'')
          (js ''m'') (js ''tok'') None example_state) = Inl (Error (js ''Forbidden''))
   \<and> fst (saveFileToGitHub (refusing_network 500 (js ''Forbidden'')) (js ''v.json'') (js ''{}'')
          (js ''m'') (js ''tok'') None example_state) = Inl (Error (js ''Forbidden''))"
  by (simp add: saveFile_sends Let_def refusing_network_def ok_def write_failed_def js_def)

text \<open>
  C3. The reads \<open>getFileFromGitHub\<close> and \<open>getFileSha\<close> at a 401 response: they fail with
  \<open>Kunne ikke hente fil: 401\<close>, the error of every other failed read (a 500 gives
  \<open>Kunne ikke hente fil: 500\<close>), and not with the invalid-token error that the write path
  of the same module raises for the same status.
\<close>

theorem read_unauthorized_is_generic:
  "fst (getFileFromGitHub (refusing_network 401 (js ''Bad credentials'')) path token st)
     = Inl (Error (js ''Kunne ikke hente fil: 401''))
   \<and> fst (getFileSha (refusing_network 401 (js ''Bad credentials'')) owner repo path token st)
     = Inl (Error (js ''Kunne ikke hente fil: 401''))
   \<and> fst (getFileFromGitHub (refusing_network 500 (js ''Bad credentials'')) path token st)
     = Inl (Error (js ''Kunne ikke hente fil: 500''))
   \<and> fst (saveFileToGitHub (refusing_network 401 (js ''Bad credentials'')) path content message
            token sha st)
     = Inl (Error invalid_token_message)"
proof -
  have n1: "num_str 401 = js ''401''" by code_simp
  have n2: "num_str 500 = js ''500''" by code_simp
  have r: "read_failed 401 = Error (js ''Kunne ikke hente fil: 401'')"
    "read_failed 500 = Error (js ''Kunne ikke hente fil: 500'')"
    by (simp_all add: read_failed_def n1 n2 js_def)
  show ?thesis
    by (simp add: getFileFromGitHub_def getFileSha_sends saveFile_sends fetch_def Let_def
        refusing_network_def ok_def write_failed_def r)
qed


section \<open>Properties of the version store\<close>

lemma saveVersion_run:
  assumes "getToken st \<noteq> []"
  shows "saveVersion P cfg net now name st =
     (let g = get_request OWNER REPO (versionsPath cfg) (getToken st) in
      case read_store P (net g) of
        Inl e \<Rightarrow> (Inl e, st\<lparr>st_sent := st_sent st @ [g]\<rparr>)
      | Inr (m, tag) \<Rightarrow>
          (let slug = uniqueSlug (slugify (unicode_lower P) name) (map fst m);
               m' = AList.update slug
                      \<lparr>v_name = name, v_id = slug, v_createdAt = Some now,
                       v_updatedAt = Some now, v_config = getCurrentConfig cfg\<rparr> m;
               p = put_request OWNER REPO (versionsPath cfg) (getToken st)
                     \<lparr>pb_message = commit_message (js ''Ny versjon: '') name cfg,
                      pb_content = b64_text (text_encode (json_stringify_store P m')),
                      pb_branch = js ''main'', pb_sha = body_sha tag\<rparr>;
               st2 = st\<lparr>st_versions := m', st_sha := tag, st_sent := st_sent st @ [g, p]\<rparr>
           in case net p of
                NetworkFailure \<Rightarrow> (Inl TypeError, st2)
              | Response resp \<Rightarrow>
                  if \<not> ok resp then (Inl (write_failed 0x2013 resp), st2)
                  else (case rs_json resp of
                          None \<Rightarrow> (Inl SyntaxError, st2)
                        | Some result \<Rightarrow>
                            (Inr slug,
                             st2\<lparr>st_storage := (st_storage st)
                                    (cache_key cfg \<mapsto> json_stringify P m')\<rparr>))))"
  using assms
  by (simp add: saveVersion_def getLatest_read_store saveFile_sends Let_def
      split: sum.splits prod.splits fetch_result.splits option.splits)


lemma deleteVersion_run:
  assumes "getToken st \<noteq> []"
  shows "deleteVersion P cfg net ident st =
     (let g = get_request OWNER REPO (versionsPath cfg) (getToken st) in
      case read_store P (net g) of
        Inl e \<Rightarrow> (Inl e, st\<lparr>st_sent := st_sent st @ [g]\<rparr>)
      | Inr (m, tag) \<Rightarrow>
          (let name = (case get_property P m ident of
                         Inl v \<Rightarrow> if v_name v \<noteq> [] then v_name v else ident
                       | Inr (Inherited extensible (Some n)) \<Rightarrow> if n \<noteq> [] then n else ident
                       | Inr _ \<Rightarrow> ident);
               m' = AList.delete ident m;
               p = put_request OWNER REPO (versionsPath cfg) (getToken st)
                     \<lparr>pb_message = commit_message (js ''Slett versjon: '') name cfg,
                      pb_content = b64_text (text_encode (json_stringify_store P m')),
                      pb_branch = js ''main'', pb_sha = body_sha tag\<rparr>;
               st2 = st\<lparr>st_versions := m', st_sha := tag, st_sent := st_sent st @ [g, p]\<rparr>
           in case net p of
                NetworkFailure \<Rightarrow> (Inl TypeError, st2)
              | Response resp \<Rightarrow>
                  if \<not> ok resp then (Inl (write_failed 0x2013 resp), st2)
                  else (case rs_json resp of
                          None \<Rightarrow> (Inl SyntaxError, st2)
                        | Some result \<Rightarrow>
                            (Inr (),
                             st2\<lparr>st_storage := (st_storage st)
                                    (cache_key cfg \<mapsto> json_stringify P m')\<rparr>))))"
  using assms
  by (simp add: deleteVersion_def getLatest_read_store saveFile_sends Let_def
      split: sum.splits prod.splits fetch_result.splits option.splits)

lemma example_token: "getToken example_state = js ''tok''"
  by (simp add: getToken_def example_state_def)

lemma example_read:
  "read_store example_platform (example_network (get_request OWNER REPO p t)) = Inr ([], None)"
  by (simp add: read_store_def example_network_def get_request_def)

lemma example_write:
  "example_network (put_request OWNER REPO p t b)
   = Response \<lparr>rs_status = 201,
                rs_json = Some \<lparr>jb_sha = js ''s1'', jb_content = None, jb_message = [],
                                jb_commit_url = js ''c1''\<rparr>\<rparr>"
  by (simp add: example_network_def put_request_def)



lemma stored_write:
  "stored_network (put_request OWNER REPO p t b)
   = Response \<lparr>rs_status = 200,
                rs_json = Some \<lparr>jb_sha = js ''s1'', jb_content = None, jb_message = [],
                                jb_commit_url = js ''c1''\<rparr>\<rparr>"
  by (simp add: stored_network_def put_request_def)



text \<open>
  C7. After the fetch held the mapping \<open>m\<close>: \<open>deleteVersion\<close> of an id that is not in \<open>m\<close>
  leaves the mapping \<open>m\<close>, and of an id that is in \<open>m\<close> removes that record and no other. In
  both cases the read and the write are sent, and the call fails only if the write does:
  an absent id raises no error.
\<close>

theorem delete_idempotent:
  assumes "getToken st \<noteq> []"
    and "read_store P (net (get_request OWNER REPO (versionsPath cfg) (getToken st))) = Inr (m, tag)"
    and "deleteVersion P cfg net ident st = (res, st')"
  shows "(ident \<notin> fst ` set m \<longrightarrow> st_versions st' = m)
       \<and> (ident \<in> fst ` set m \<longrightarrow>
            ident \<notin> fst ` set (st_versions st')
            \<and> map_of (st_versions st') = (map_of m)(ident := None))
       \<and> (\<exists>b. st_sent st' = st_sent st
                 @ [get_request OWNER REPO (versionsPath cfg) (getToken st),
                    put_request OWNER REPO (versionsPath cfg) (getToken st) b]
              \<and> (res = Inr () \<longleftrightarrow>
                   (\<exists>resp result.
                      net (put_request OWNER REPO (versionsPath cfg) (getToken st) b) = Response resp
                      \<and> ok resp \<and> rs_json resp = Some result)))"
proof -
  have v: "st_versions st' = AList.delete ident m"
    using assms
    by (auto simp: deleteVersion_run Let_def split: fetch_result.splits if_splits option.splits)
  have w: "\<exists>b. st_sent st' = st_sent st
                 @ [get_request OWNER REPO (versionsPath cfg) (getToken st),
                    put_request OWNER REPO (versionsPath cfg) (getToken st) b]
              \<and> (res = Inr () \<longleftrightarrow>
                   (\<exists>resp result.
                      net (put_request OWNER REPO (versionsPath cfg) (getToken st) b) = Response resp
                      \<and> ok resp \<and> rs_json resp = Some result))"
    using assms
    by (auto simp: deleteVersion_run Let_def split: fetch_result.splits if_splits option.splits)
  from v w show ?thesis
    by (simp add: delete_notin_dom delete_conv')
qed

text \<open>
  Deleting \<open>x\<close> from a store that has no versions returns normally and leaves no versions.
\<close>

theorem delete_idempotent_witness:
  "getToken example_state \<noteq> []
   \<and> js ''x'' \<notin> fst ` set ([] :: nat versions)
   \<and> deleteVersion example_platform example_config example_network (js ''x'') example_state
      = (Inr (), snd (deleteVersion example_platform example_config example_network (js ''x'')
                        example_state))
   \<and> st_versions (snd (deleteVersion example_platform example_config example_network (js ''x'')
                          example_state)) = []"
proof -
  let ?run = "deleteVersion example_platform example_config example_network (js ''x'')
                example_state"
  have t: "getToken example_state \<noteq> []" by (simp add: example_token js_def)
  have r: "read_store example_platform
             (example_network (get_request OWNER REPO (versionsPath example_config)
                (getToken example_state))) = Inr ([], None)"
    by (rule example_read)
  have p: "?run = (fst ?run, snd ?run)" by simp
  have n: "example_network (put_request OWNER REPO (versionsPath example_config)
              (getToken example_state) b)
           = Response \<lparr>rs_status = 201,
                        rs_json = Some \<lparr>jb_sha = js ''s1'', jb_content = None, jb_message = [],
                                        jb_commit_url = js ''c1''\<rparr>\<rparr>" for b
    by (simp add: example_network_def put_request_def)
  from delete_idempotent [OF t r p]
  have "st_versions (snd ?run) = []" and "fst ?run = Inr ()"
    by (auto simp: n ok_def)
  with t show ?thesis by (simp add: prod_eq_iff)
qed

text \<open>
  C10. When the token read from local storage is empty, each of \<open>saveVersion\<close>,
  \<open>updateVersion\<close> and \<open>deleteVersion\<close> throws its no-token error and returns the state it
  was given: no request has been sent, and \<open>_versions\<close>, \<open>_sha\<close> and the local cache are as
  before.
\<close>

theorem no_token_no_effect:
  assumes "getToken st = []"
  shows "saveVersion P cfg net now name st = (Inl (Error no_token_long), st)
       \<and> updateVersion P cfg net now ident st = (Inl (Error no_token_short), st)
       \<and> deleteVersion P cfg net ident st = (Inl (Error no_token_short), st)"
  using assms by (simp add: saveVersion_def updateVersion_def deleteVersion_def)

text \<open>
  With an empty local storage \<open>deleteVersion\<close> fails at once.
\<close>

theorem no_token_no_effect_witness:
  "getToken (example_state\<lparr>st_storage := Map.empty\<rparr>) = []
   \<and> deleteVersion example_platform example_config example_network (js ''x'')
        (example_state\<lparr>st_storage := Map.empty\<rparr>)
      = (Inl (Error no_token_short), example_state\<lparr>st_storage := Map.empty\<rparr>)"
proof -
  have e: "getToken (example_state\<lparr>st_storage := Map.empty\<rparr>) = []"
    by (simp add: getToken_def)
  from no_token_no_effect [OF e] e show ?thesis by blast
qed


section \<open>Properties of the slug generator\<close>

subsection \<open>\<open>uniqueSlug\<close>\<close>

lemma uniqueSlug_loop_first:
  "i \<le> uniqueSlug_loop slug ids i
   \<and> suffixed slug (uniqueSlug_loop slug ids i) \<notin> set ids
   \<and> (\<forall>j. i \<le> j \<and> j < uniqueSlug_loop slug ids i \<longrightarrow> suffixed slug j \<in> set ids)"
proof (induction slug ids i rule: uniqueSlug_loop.induct)
  case (1 slug ids i)
  show ?case
  proof (cases "suffixed slug i \<in> set ids")
    case True
    then have eq: "uniqueSlug_loop slug ids i = uniqueSlug_loop slug ids (Suc i)"
      by (subst uniqueSlug_loop.simps) simp
    from "1.IH" [OF True] have a: "Suc i \<le> uniqueSlug_loop slug ids (Suc i)"
      and b: "suffixed slug (uniqueSlug_loop slug ids (Suc i)) \<notin> set ids"
      and c: "\<And>j. Suc i \<le> j \<Longrightarrow> j < uniqueSlug_loop slug ids (Suc i)
                \<Longrightarrow> suffixed slug j \<in> set ids"
      by blast+
    have "suffixed slug j \<in> set ids" if "i \<le> j" "j < uniqueSlug_loop slug ids (Suc i)" for j
    proof (cases "j = i")
      case True
      with \<open>suffixed slug i \<in> set ids\<close> show ?thesis by simp
    next
      case False
      with that have "Suc i \<le> j" by simp
      with that c show ?thesis by blast
    qed
    with a b show ?thesis unfolding eq by auto
  next
    case False
    then have "uniqueSlug_loop slug ids i = i"
      by (subst uniqueSlug_loop.simps) simp
    with False show ?thesis by auto
  qed
qed

text \<open>
  C5. For every list \<open>existingIds\<close> and every candidate, \<open>uniqueSlug\<close> returns an id that is
  not in \<open>existingIds\<close>: the candidate itself when it is not in the list, and otherwise
  \<open>candidate-i\<close> for the first \<open>i\<close> of 2, 3, ... whose \<open>candidate-i\<close> is not in the list.
  The loop is a total function (its termination is proved where it is defined), so the
  call returns on every input.
\<close>

theorem uniqueSlug_fresh_and_first:
  "uniqueSlug candidate existingIds \<notin> set existingIds
   \<and> (candidate \<notin> set existingIds \<longrightarrow> uniqueSlug candidate existingIds = candidate)
   \<and> (candidate \<in> set existingIds \<longrightarrow>
        (\<exists>i\<ge>2. uniqueSlug candidate existingIds = suffixed candidate i
           \<and> (\<forall>j. 2 \<le> j \<and> j < i \<longrightarrow> suffixed candidate j \<in> set existingIds)))"
  using uniqueSlug_loop_first [of 2 candidate existingIds]
  by (auto simp: uniqueSlug_def)

theorem uniqueSlug_witness:
  "uniqueSlug (js ''test'') [js ''test'', js ''test-2''] \<notin> set [js ''test'', js ''test-2'']
   \<and> uniqueSlug (js ''test'') [js ''test'', js ''test-2''] = js ''test-3''
   \<and> uniqueSlug (js ''test'') [] = js ''test''"
proof -
  have "uniqueSlug (js ''test'') [js ''test'', js ''test-2''] \<notin> set [js ''test'', js ''test-2'']"
    using uniqueSlug_fresh_and_first [of "js ''test''" "[js ''test'', js ''test-2'']"] by blast
  moreover have "uniqueSlug (js ''test'') [js ''test'', js ''test-2''] = js ''test-3''"
    by code_simp
  moreover have "uniqueSlug (js ''test'') [] = js ''test''"
    using uniqueSlug_fresh_and_first [of "js ''test''" "[]"] by simp
  ultimately show ?thesis by blast
qed


subsection \<open>\<open>slugify\<close>\<close>

lemma alnum_not_hyphen: "alnum c \<Longrightarrow> c \<noteq> hyphen"
  by (auto simp: alnum_def hyphen_def)

lemma replace_unit_Nil: "replace_unit c r [] = []"
  by (simp add: replace_unit_def)

lemma replace_unit_Cons:
  "replace_unit c r (x # s) = (if x = c then r else [x]) @ replace_unit c r s"
  by (simp add: replace_unit_def)

lemma replace_unit_append:
  "replace_unit c r (s @ t) = replace_unit c r s @ replace_unit c r t"
  by (simp add: replace_unit_def)

lemma replace_units_transliterate:
  "replace_unit 0xE5 (js ''a'') (replace_unit 0xF8 (js ''o'') (replace_unit 0xE6 (js ''ae'') s))
     = transliterate s"
proof (induction s)
  case Nil
  show ?case by (simp add: replace_unit_def transliterate_def)
next
  case (Cons x s)
  have t: "transliterate (x # s) =
      (if x = 0xE6 then js ''ae'' else if x = 0xF8 then js ''o''
       else if x = 0xE5 then js ''a'' else [x]) @ transliterate s"
    by (simp add: transliterate_def)
  show ?case
    unfolding t Cons.IH [symmetric]
    by (simp add: replace_unit_Cons replace_unit_append replace_unit_Nil js_def)
qed

lemma collapse_runs_replace_runs:
  "collapse_runs False s = replace_runs (\<lambda>c. \<not> alnum c) [hyphen] s
   \<and> collapse_runs True s = replace_runs (\<lambda>c. \<not> alnum c) [hyphen] (dropWhile (\<lambda>c. \<not> alnum c) s)"
  by (induction s) auto

lemma collapse_True_head: "collapse_runs True s = [] \<or> alnum (hd (collapse_runs True s))"
  by (induction s) auto

lemma collapse_no_double:
  "successively (\<lambda>x y. \<not> (x = hyphen \<and> y = hyphen)) (collapse_runs b s)"
proof (induction s arbitrary: b)
  case Nil
  show ?case by simp
next
  case (Cons c s)
  show ?case
    using Cons.IH [of True] Cons.IH [of False] collapse_True_head [of s]
    by (auto simp: successively_Cons alnum_not_hyphen)
qed

lemma dropWhile_hyphen_single:
  assumes "successively (\<lambda>x y. \<not> (x = hyphen \<and> y = hyphen)) w"
  shows "dropWhile (\<lambda>c. c = hyphen) w
         = (case w of [] \<Rightarrow> [] | c # r \<Rightarrow> if c = hyphen then r else w)"
proof (cases w)
  case Nil
  then show ?thesis by simp
next
  case (Cons c r)
  show ?thesis
  proof (cases r)
    case Nil
    with Cons show ?thesis by simp
  next
    case (Cons d r')
    with \<open>w = c # r\<close> assms show ?thesis by auto
  qed
qed

lemma replace_hyphen_runs_id:
  "replace_runs (\<lambda>c. c = hyphen) [hyphen] (collapse_runs b s) = collapse_runs b s"
proof (induction s arbitrary: b)
  case Nil
  show ?case by simp
next
  case (Cons c s)
  have d: "dropWhile (\<lambda>c. c = hyphen) (collapse_runs True s) = collapse_runs True s"
    using collapse_True_head [of s] by (cases "collapse_runs True s") (auto dest: alnum_not_hyphen)
  show ?case
    using Cons.IH [of True] Cons.IH [of False] d
    by (auto simp: alnum_not_hyphen)
qed

lemma strip_is_trim:
  assumes "successively (\<lambda>x y. \<not> (x = hyphen \<and> y = hyphen)) w"
  shows "strip_hyphen_ends w = trim_hyphens w"
proof -
  let ?P = "\<lambda>x y. \<not> (x = hyphen \<and> y = hyphen)"
  define s1 where "s1 = (case w of [] \<Rightarrow> [] | c # r \<Rightarrow> if c = hyphen then r else w)"
  have d1: "dropWhile (\<lambda>c. c = hyphen) w = s1"
    unfolding s1_def by (rule dropWhile_hyphen_single [OF assms])
  have "successively ?P s1"
    using assms unfolding s1_def by (auto simp: successively_Cons split: list.splits)
  moreover have "(\<lambda>x y. \<not> (y = hyphen \<and> x = hyphen)) = ?P"
    by (auto simp: fun_eq_iff)
  ultimately have "successively ?P (rev s1)"
    by (simp only: successively_rev)
  from dropWhile_hyphen_single [OF this]
  have d2: "dropWhile (\<lambda>c. c = hyphen) (rev s1)
            = (case rev s1 of [] \<Rightarrow> [] | c # r \<Rightarrow> if c = hyphen then r else rev s1)" .
  have "rev (dropWhile (\<lambda>c. c = hyphen) (rev s1))
        = (if s1 \<noteq> [] \<and> last s1 = hyphen then butlast s1 else s1)"
  proof (cases s1 rule: rev_cases)
    case Nil
    then show ?thesis by simp
  next
    case (snoc q x)
    then show ?thesis unfolding d2 by simp
  qed
  then show ?thesis
    by (simp add: strip_hyphen_ends_def trim_hyphens_def d1 s1_def Let_def)
qed

lemma slugify_refines: "slugify lo name = slugify_spec lo name"
proof -
  let ?t = "transliterate (toLowerCase lo name)"
  have "slugify lo name
        = strip_hyphen_ends (replace_runs (\<lambda>c. c = hyphen) [hyphen] (collapse_runs False ?t))"
    by (simp add: slugify_def replace_units_transliterate collapse_runs_replace_runs)
  also have "\<dots> = strip_hyphen_ends (collapse_runs False ?t)"
    by (simp add: replace_hyphen_runs_id)
  also have "\<dots> = trim_hyphens (collapse_runs False ?t)"
    by (rule strip_is_trim [OF collapse_no_double])
  finally show ?thesis by (simp add: slugify_spec_def)
qed

lemma slugify_example: "slugify lo scenario_name = js ''mork-16-9''"
  by (simp add: scenario_name_def slugify_def js_def toLowerCase_def latin1_lower_def
      replace_unit_def alnum_def hyphen_def strip_hyphen_ends_def)

text \<open>
  C6. \<open>slugify\<close> is a function of the name (and of the platform's lowercase mapping), equal
  on every name to: lowercase, transliterate the three letters, turn every run of units
  other than \<open>a\<close>-\<open>z\<close> and \<open>0\<close>-\<open>9\<close> into one hyphen, trim the hyphens at both ends. On
  the scenario's name it gives \<open>mork-16-9\<close>, and a save of that name on a store without
  versions inserts the record under that id and, unless the write fails, returns it.
\<close>

theorem slugify_meets_spec:
  "slugify lo name = slugify_spec lo name
   \<and> slugify lo scenario_name = js ''mork-16-9''
   \<and> (getToken st \<noteq> []
        \<and> read_store P (net (get_request OWNER REPO (versionsPath cfg) (getToken st)))
            = Inr ([], tag)
      \<longrightarrow> map fst (st_versions (snd (saveVersion P cfg net now scenario_name st)))
            = [js ''mork-16-9'']
          \<and> (fst (saveVersion P cfg net now scenario_name st) = Inr (js ''mork-16-9'')
             \<or> (\<exists>e. fst (saveVersion P cfg net now scenario_name st) = Inl e)))"
proof -
  have u: "uniqueSlug (slugify (unicode_lower P) scenario_name) [] = js ''mork-16-9''"
    by (simp add: uniqueSlug_def slugify_example)
  have a: "slugify lo name = slugify_spec lo name" by (rule slugify_refines)
  have b: "slugify lo scenario_name = js ''mork-16-9''" by (rule slugify_example)
  have c: "map fst (st_versions (snd (saveVersion P cfg net now scenario_name st)))
            = [js ''mork-16-9'']
          \<and> (fst (saveVersion P cfg net now scenario_name st) = Inr (js ''mork-16-9'')
             \<or> (\<exists>e. fst (saveVersion P cfg net now scenario_name st) = Inl e))"
    if "getToken st \<noteq> []"
      and "read_store P (net (get_request OWNER REPO (versionsPath cfg) (getToken st)))
            = Inr ([], tag)"
    using that
    by (auto simp: saveVersion_run Let_def u split: fetch_result.splits option.splits)
  from a b c show ?thesis by blast
qed

text \<open>
  A name with runs of punctuation at both ends, and the scenario's save against a store
  that accepts the write.
\<close>

theorem slugify_meets_spec_witness:
  "slugify (\<lambda>s. s) (js ''--A  b--c__'') = js ''a-b-c''
   \<and> slugify_spec (\<lambda>s. s) (js ''--A  b--c__'') = js ''a-b-c''
   \<and> getToken example_state \<noteq> []
   \<and> fst (saveVersion example_platform example_config example_network (js ''t1'')
            scenario_name example_state) = Inr (js ''mork-16-9'')"
proof -
  let ?run = "saveVersion example_platform example_config example_network (js ''t1'')
                scenario_name example_state"
  have a: "slugify (\<lambda>s. s) (js ''--A  b--c__'') = js ''a-b-c''"
    by (simp add: slugify_def js_def toLowerCase_def latin1_lower_def replace_unit_def
        alnum_def hyphen_def strip_hyphen_ends_def)
  have t: "getToken example_state \<noteq> []" by (simp add: example_token js_def)
  have r: "read_store example_platform
             (example_network (get_request OWNER REPO (versionsPath example_config)
                (getToken example_state))) = Inr ([], None)"
    by (rule example_read)
  have ne: "fst ?run \<noteq> Inl e" for e
    by (simp add: saveVersion_run [OF t] Let_def r example_write ok_def)
  from slugify_meets_spec [of "\<lambda>s. s" "js ''--A  b--c__''" example_state example_platform
      example_network example_config None "js ''t1''"] a t r ne
  show ?thesis by auto
qed


section \<open>Properties of the recency listing\<close>

lemma set_insert_by: "set (insert_by cmp x ys) = insert x (set ys)"
  by (induction ys) auto

lemma mset_insert_by: "mset (insert_by cmp x ys) = add_mset x (mset ys)"
  by (induction ys) auto

lemma mset_array_sort: "mset (array_sort cmp xs) = mset xs"
  by (induction xs) (simp_all add: array_sort_def mset_insert_by)

lemma sorted_insert_by:
  assumes "\<And>a b. a \<in> insert x (set ys) \<Longrightarrow> b \<in> insert x (set ys) \<Longrightarrow> cmp a b = t b - t a"
    and "sorted_wrt (\<lambda>a b. t b \<le> t a) ys"
  shows "sorted_wrt (\<lambda>a b. t b \<le> (t a :: int)) (insert_by cmp x ys)"
  using assms
proof (induction ys)
  case Nil
  show ?case by simp
next
  case (Cons y ys)
  have c: "cmp x y = t y - t x" using Cons.prems(1) by simp
  show ?case
  proof (cases "cmp x y \<le> 0")
    case True
    with c have "t y \<le> t x" by simp
    with Cons.prems(2) True show ?thesis by (auto intro: order_trans)
  next
    case False
    with c have xy: "t x \<le> t y" by simp
    have "sorted_wrt (\<lambda>a b. t b \<le> t a) (insert_by cmp x ys)"
      using Cons.prems by (intro Cons.IH) auto
    with False xy Cons.prems(2) show ?thesis by (auto simp: set_insert_by)
  qed
qed

lemma sorted_array_sort:
  assumes "\<And>a b. a \<in> set xs \<Longrightarrow> b \<in> set xs \<Longrightarrow> cmp a b = t b - t a"
  shows "sorted_wrt (\<lambda>a b. t b \<le> (t a :: int)) (array_sort cmp xs)"
  using assms
proof (induction xs)
  case Nil
  show ?case by (simp add: array_sort_def)
next
  case (Cons x xs)
  have s: "sorted_wrt (\<lambda>a b. t b \<le> t a) (array_sort cmp xs)"
    using Cons.prems by (intro Cons.IH) auto
  have e: "set (array_sort cmp xs) = set xs"
    using mset_array_sort [of cmp xs] by (metis set_mset_mset)
  have "sorted_wrt (\<lambda>a b. t b \<le> t a) (insert_by cmp x (array_sort cmp xs))"
    using Cons.prems s by (intro sorted_insert_by) (auto simp: e)
  then show ?case by (simp add: array_sort_def)
qed

text \<open>
  C8. When every record has a date (its \<open>updatedAt\<close>, or its \<open>createdAt\<close> where \<open>updatedAt\<close>
  is absent or empty, is a valid date), the listing holds exactly the records of the
  mapping, ordered so that this date never increases. For two records of which the
  second is the more recent the listing is the second, then the first.
\<close>

theorem listing_by_recency:
  "((\<forall>v \<in> set (map snd versions). time_value P v = Some (t v))
      \<longrightarrow> mset (sorted_versions P versions) = mset (map snd versions)
        \<and> sorted_wrt (\<lambda>a b. t b \<le> t a) (sorted_versions P versions))
   \<and> (v_updatedAt v = Some u \<and> u \<noteq> [] \<longrightarrow> time_value P v = date_ms P u)
   \<and> (v_updatedAt v = None \<and> v_createdAt v = Some c \<longrightarrow> time_value P v = date_ms P c)
   \<and> (time_value P va = Some n1 \<and> time_value P vb = Some n2 \<and> n1 < n2
      \<longrightarrow> sorted_versions P [(a, va), (b, vb)] = [vb, va])"
proof -
  have 1: "mset (sorted_versions P versions) = mset (map snd versions)
        \<and> sorted_wrt (\<lambda>a b. t b \<le> t a) (sorted_versions P versions)"
    if v: "\<forall>v \<in> set (map snd versions). time_value P v = Some (t v)"
  proof -
    have "by_recency P x y = t y - t x"
      if "x \<in> set (map snd versions)" "y \<in> set (map snd versions)" for x y
    proof -
      from v that have "time_value P x = Some (t x)" "time_value P y = Some (t y)" by blast+
      then show ?thesis by (simp add: by_recency_def)
    qed
    then have "sorted_wrt (\<lambda>a b. t b \<le> t a) (array_sort (by_recency P) (map snd versions))"
      by (rule sorted_array_sort)
    then show ?thesis by (simp add: sorted_versions_def mset_array_sort)
  qed
  have 2: "sorted_versions P [(a, va), (b, vb)] = [vb, va]"
    if "time_value P va = Some n1" "time_value P vb = Some n2" "n1 < n2"
    using that by (simp add: sorted_versions_def array_sort_def by_recency_def)
  have 3: "time_value P v = date_ms P u" if "v_updatedAt v = Some u" "u \<noteq> []"
    using that by (simp add: time_value_def)
  have 4: "time_value P v = date_ms P c" if "v_updatedAt v = None" "v_createdAt v = Some c"
    using that by (simp add: time_value_def)
  from 1 2 3 4 show ?thesis by blast
qed

text \<open>
  The store \<open>{a: X created at t1, b: Y updated at t2}\<close> lists \<open>b\<close> before \<open>a\<close>.
\<close>

theorem listing_by_recency_witness:
  "time_value example_platform
     \<lparr>v_name = js ''X'', v_id = js ''a'', v_createdAt = Some (js ''t1''), v_updatedAt = None,
      v_config = 0\<rparr> = Some 1
   \<and> time_value example_platform
     \<lparr>v_name = js ''Y'', v_id = js ''b'', v_createdAt = None, v_updatedAt = Some (js ''t2''),
      v_config = 0\<rparr> = Some 2
   \<and> sorted_versions example_platform
       [(js ''a'', \<lparr>v_name = js ''X'', v_id = js ''a'', v_createdAt = Some (js ''t1''),
                    v_updatedAt = None, v_config = 0\<rparr>),
        (js ''b'', \<lparr>v_name = js ''Y'', v_id = js ''b'', v_createdAt = None,
                    v_updatedAt = Some (js ''t2''), v_config = 0\<rparr>)]
     = [\<lparr>v_name = js ''Y'', v_id = js ''b'', v_createdAt = None,
         v_updatedAt = Some (js ''t2''), v_config = 0\<rparr>,
        \<lparr>v_name = js ''X'', v_id = js ''a'', v_createdAt = Some (js ''t1''),
         v_updatedAt = None, v_config = 0\<rparr>]"
proof -
  let ?a = "\<lparr>v_name = js ''X'', v_id = js ''a'', v_createdAt = Some (js ''t1''),
             v_updatedAt = None, v_config = 0::nat\<rparr>"
  let ?b = "\<lparr>v_name = js ''Y'', v_id = js ''b'', v_createdAt = None,
             v_updatedAt = Some (js ''t2''), v_config = 0::nat\<rparr>"
  let ?t = "\<lambda>v::nat version. if v_id v = js ''a'' then 1 else (2::int)"
  have c: "date_ms example_platform (js ''t1'') = Some 1"
    "date_ms example_platform (js ''t2'') = Some 2" "js ''t2'' \<noteq> []"
    by (simp_all add: example_platform_def js_def)
  from listing_by_recency [where versions = "[(js ''a'', ?a), (js ''b'', ?b)]"
      and P = example_platform and t = ?t and v = ?b and u = "js ''t2''" and c = "js ''t1''"
      and va = ?a and ?n1.0 = 1 and vb = ?b and ?n2.0 = 2 and a = "js ''a''" and b = "js ''b''"]
  have b: "time_value example_platform ?b = Some 2" using c by simp
  from listing_by_recency [where versions = "[(js ''a'', ?a), (js ''b'', ?b)]"
      and P = example_platform and t = ?t and v = ?a and u = "js ''t2''" and c = "js ''t1''"
      and va = ?a and ?n1.0 = 1 and vb = ?b and ?n2.0 = 2 and a = "js ''a''" and b = "js ''b''"]
  have a: "time_value example_platform ?a = Some 1"
    and "time_value example_platform ?a = Some 1 \<and> time_value example_platform ?b = Some 2
         \<and> (1::int) < 2
         \<longrightarrow> sorted_versions example_platform [(js ''a'', ?a), (js ''b'', ?b)] = [?b, ?a]"
    using c by simp_all
  with b show ?thesis by simp
qed


section \<open>Properties of the embed resizer\<close>









end
